theory Spec2Isabelle
  imports Main
begin

section \<open>Overview\<close>

text \<open>
  A model of the path-matching engine of the Go module \<^verbatim>\<open>go-path-ignore\<close>, which decides
  whether a path is ignored according to regular expressions, globs and gitignore lines:
  the pattern set (\<^verbatim>\<open>match/re2set.go\<close>), the matchers of the packages \<^verbatim>\<open>regex\<close>, \<^verbatim>\<open>glob\<close> and
  \<^verbatim>\<open>gitignore\<close> with the gitignore translator \<^verbatim>\<open>parse\<close>, and the combinator \<^verbatim>\<open>PathIgnore\<close>.
  The sources hold two versions of the glob package and of the combinator; the model
  follows the later ones (with \<^verbatim>\<open>NewStrictParallelMatcher\<close> and \<^verbatim>\<open>PathIgnore.Match2\<close>), and the
  regex package in the version that has the \<^verbatim>\<open>Parallel\<close> option.

  The definitions come first, in the order of the packages; the lemmas and the theorems
  about them follow. What the program takes from outside (the regular-expression engine,
  the glob engine, the file system, the path separator) is a parameter of the model, the
  record \<open>env\<close>; \<open>model_env\<close> instantiates it for statements about concrete patterns.
\<close>

section \<open>Strings\<close>

text \<open>
  Go strings are byte sequences; they are modelled as \<^typ>\<open>string\<close> (a \<^typ>\<open>char list\<close>,
  one \<^typ>\<open>char\<close> per byte). The functions of package \<^verbatim>\<open>strings\<close> that the matchers call
  are written out here.
\<close>

definition bslash :: char where
  "bslash = CHR 0x5C"

definition HasPrefix :: "string \<Rightarrow> string \<Rightarrow> bool" where
  "HasPrefix s p = (take (length p) s = p)"

definition HasSuffix :: "string \<Rightarrow> string \<Rightarrow> bool" where
  "HasSuffix s p = (length p \<le> length s \<and> drop (length s - length p) s = p)"

fun Contains :: "string \<Rightarrow> string \<Rightarrow> bool" where
  "Contains [] sub = (sub = [])"
| "Contains (c # cs) sub = (if HasPrefix (c # cs) sub then True else Contains cs sub)"

definition TrimLeft :: "string \<Rightarrow> string \<Rightarrow> string" where
  "TrimLeft s cutset = dropWhile (\<lambda>c. c \<in> set cutset) s"

definition TrimRight :: "string \<Rightarrow> string \<Rightarrow> string" where
  "TrimRight s cutset = rev (dropWhile (\<lambda>c. c \<in> set cutset) (rev s))"

definition Trim :: "string \<Rightarrow> string \<Rightarrow> string" where
  "Trim s cutset = TrimRight (TrimLeft s cutset) cutset"

fun Join :: "string list \<Rightarrow> string \<Rightarrow> string" where
  "Join [] sep = []"
| "Join [x] sep = x"
| "Join (x # y # ys) sep = x @ sep @ Join (y # ys) sep"

fun Split_from :: "char \<Rightarrow> string \<Rightarrow> string \<Rightarrow> string list" where
  "Split_from sep acc [] = [rev acc]"
| "Split_from sep acc (c # cs) =
     (if c = sep then rev acc # Split_from sep [] cs else Split_from sep (c # acc) cs)"

text \<open>\<^verbatim>\<open>strings.Split(s, "\n")\<close>: the separator of the one call in the source is a single byte.\<close>

definition Split :: "string \<Rightarrow> char \<Rightarrow> string list" where
  "Split s sep = Split_from sep [] s"

text \<open>
  Non-overlapping replacement from left to right; the counter \<open>k\<close> is the number of bytes
  of the occurrence just replaced that are still to be skipped. Every call in the source
  has a non-empty \<^verbatim>\<open>old\<close>; for an empty one \<^verbatim>\<open>new\<close> is inserted at the begin and after each
  byte (each character, for ASCII text).
\<close>

fun replace_from :: "string \<Rightarrow> string \<Rightarrow> nat \<Rightarrow> string \<Rightarrow> string" where
  "replace_from old new k [] = []"
| "replace_from old new k (c # cs) =
     (if 0 < k then replace_from old new (k - 1) cs
      else if HasPrefix (c # cs) old then new @ replace_from old new (length old - 1) cs
      else c # replace_from old new 0 cs)"

definition ReplaceAll :: "string \<Rightarrow> string \<Rightarrow> string \<Rightarrow> string" where
  "ReplaceAll s old new =
     (if old = [] then new @ concat (map (\<lambda>c. c # new) s) else replace_from old new 0 s)"

section \<open>The regular-expression engine\<close>

text \<open>
  Modelled from the spec: the regular-expression engine (package \<^verbatim>\<open>go-re2\<close>, imported as
  \<^verbatim>\<open>regexp\<close>) is an external library and not part of the sources; the specification takes
  its grammar as an externally specified dialect. The matchers below never look inside a
  compiled expression: they take the engine as a parameter (a compile function that
  returns either an error text or the compiled expression, which is modelled by what its
  \<^verbatim>\<open>MatchString\<close> method answers). Statements about concrete pattern texts need a concrete
  engine, and this section gives one for a fragment of the RE2 syntax: literal bytes,
  \<^verbatim>\<open>.\<close> (any byte but a newline), \<^verbatim>\<open>^\<close> and \<^verbatim>\<open>$\<close> (begin and end of the text), bracket classes
  with ranges and negation, backslash followed by a space or a punctuation byte, groups \<^verbatim>\<open>(...)\<close> and
  \<^verbatim>\<open>(?:...)\<close>, alternation and the repetitions \<^verbatim>\<open>*\<close>, \<^verbatim>\<open>+\<close>, \<^verbatim>\<open>?\<close> (also in their non-greedy
  spelling). Everything else (counted repetition, flags, named groups, Perl and POSIX
  classes, non-ASCII bytes) is outside the fragment and is refused with an error text, so
  a pattern outside the fragment is never given a meaning it does not have. Patterns and
  texts are ASCII.

  \<^verbatim>\<open>MatchString\<close> reports whether the text contains a match: whether the expression matches
  some substring. The search is by derivatives: \<open>nullable r bos eos\<close> says whether \<open>r\<close>
  matches the empty string at a position that is at the begin of the text (\<open>bos\<close>) or at
  its end (\<open>eos\<close>), and \<open>deriv r bos c\<close> is what is left of \<open>r\<close> after the byte \<open>c\<close>.
\<close>

datatype re =
    Fail | Emp | Bol | Eol
  | Chr char | Dot | Cls bool "(char \<times> char) list"
  | Seq re re | Alt re re | Star re

definition in_ranges :: "char \<Rightarrow> (char \<times> char) list \<Rightarrow> bool" where
  "in_ranges c rs =
     list_ex (\<lambda>(lo, hi). (of_char lo :: nat) \<le> of_char c \<and> (of_char c :: nat) \<le> of_char hi) rs"

fun accepts :: "re \<Rightarrow> char \<Rightarrow> bool" where
  "accepts (Chr a) c = (a = c)"
| "accepts Dot c = (c \<noteq> CHR 0x0A)"
| "accepts (Cls neg rs) c = (neg \<noteq> in_ranges c rs)"
| "accepts _ c = False"

fun nullable :: "re \<Rightarrow> bool \<Rightarrow> bool \<Rightarrow> bool" where
  "nullable Fail bos eos = False"
| "nullable Emp bos eos = True"
| "nullable Bol bos eos = bos"
| "nullable Eol bos eos = eos"
| "nullable (Seq r s) bos eos = (if nullable r bos eos then nullable s bos eos else False)"
| "nullable (Alt r s) bos eos = (if nullable r bos eos then True else nullable s bos eos)"
| "nullable (Star r) bos eos = True"
| "nullable _ bos eos = False"

definition seq :: "re \<Rightarrow> re \<Rightarrow> re" where
  "seq r s =
     (if r = Fail \<or> s = Fail then Fail else if r = Emp then s else if s = Emp then r else Seq r s)"

definition alt :: "re \<Rightarrow> re \<Rightarrow> re" where
  "alt r s = (if r = Fail then s else if s = Fail then r else Alt r s)"

fun deriv :: "re \<Rightarrow> bool \<Rightarrow> char \<Rightarrow> re" where
  "deriv (Seq r s) bos c =
     alt (seq (deriv r bos c) s) (if nullable r bos False then deriv s bos c else Fail)"
| "deriv (Alt r s) bos c = alt (deriv r bos c) (deriv s bos c)"
| "deriv (Star r) bos c = seq (deriv r bos c) (Star r)"
| "deriv Fail bos c = Fail"
| "deriv Emp bos c = Fail"
| "deriv Bol bos c = Fail"
| "deriv Eol bos c = Fail"
| "deriv r bos c = (if accepts r c then Emp else Fail)"

fun match_here :: "re \<Rightarrow> bool \<Rightarrow> string \<Rightarrow> bool" where
  "match_here r bos [] = nullable r bos True"
| "match_here r bos (c # cs) =
     (if r = Fail then False
      else if nullable r bos False then True
      else match_here (deriv r bos c) False cs)"

fun search :: "re \<Rightarrow> bool \<Rightarrow> string \<Rightarrow> bool" where
  "search r bos [] = nullable r bos True"
| "search r bos (c # cs) = (if match_here r bos (c # cs) then True else search r False cs)"

definition MatchString :: "re \<Rightarrow> string \<Rightarrow> bool" where
  "MatchString r s = search r True s"

subsection \<open>Parsing a pattern text\<close>

text \<open>
  The parser reads the pattern byte by byte. Its state is a mode and a stack of frames,
  one per open group: the finished alternatives of the group, the atoms of the
  alternative being read (both latest first) and the repetition state of the latest atom
  (0: none, 1: repeated, 2: repeated and marked non-greedy).
\<close>

type_synonym frame = "re list \<times> re list \<times> nat"

datatype cpend = CNone | CChar char | CDash char

datatype pmode =
    Normal | Escape | Group1 | Group2
  | Class bool bool "(char \<times> char) list" cpend
  | ClassEsc bool "(char \<times> char) list" cpend
  | Bad string

type_synonym pstate = "pmode \<times> frame list"

definition is_punct :: "char \<Rightarrow> bool" where
  "is_punct c = (let n = (of_char c :: nat) in
     (32 \<le> n \<and> n \<le> 47) \<or> (58 \<le> n \<and> n \<le> 64) \<or> (91 \<le> n \<and> n \<le> 94) \<or> n = 96
       \<or> (123 \<le> n \<and> n \<le> 126))"

definition mk_seq :: "re list \<Rightarrow> re" where
  "mk_seq atoms = fold seq atoms Emp"

definition mk_alt :: "re list \<Rightarrow> re" where
  "mk_alt alts = (case alts of [] \<Rightarrow> Fail | b # bs \<Rightarrow> fold Alt bs b)"

definition close_frame :: "frame \<Rightarrow> re" where
  "close_frame f = (case f of (alts, cur, rep) \<Rightarrow> mk_alt (mk_seq cur # alts))"

definition push_atom :: "re \<Rightarrow> frame list \<Rightarrow> pstate" where
  "push_atom a st = (case st of
       [] \<Rightarrow> (Bad ''empty stack'', [])
     | (alts, cur, rep) # rest \<Rightarrow> (Normal, (alts, a # cur, 0) # rest))"

definition repeat :: "char \<Rightarrow> frame list \<Rightarrow> pstate" where
  "repeat c st = (case st of
       [] \<Rightarrow> (Bad ''empty stack'', [])
     | (alts, cur, rep) # rest \<Rightarrow>
         (if rep = 1 \<and> c = CHR ''?'' then (Normal, (alts, cur, 2) # rest)
          else if rep \<noteq> 0 then (Bad ''bad repetition operator'', st)
          else (case cur of
              [] \<Rightarrow> (Bad ''missing argument to repetition operator'', st)
            | a # as \<Rightarrow>
                (Normal, (alts,
                   (if c = CHR ''*'' then Star a
                    else if c = CHR ''+'' then Seq a (Star a)
                    else Alt a Emp) # as, 1) # rest))))"

definition add_class_char :: "char \<Rightarrow> bool \<Rightarrow> (char \<times> char) list \<Rightarrow> cpend \<Rightarrow> pmode" where
  "add_class_char c neg rs pend = (case pend of
       CNone \<Rightarrow> Class neg False rs (CChar c)
     | CChar l \<Rightarrow> Class neg False ((l, l) # rs) (CChar c)
     | CDash l \<Rightarrow>
         (if (of_char l :: nat) \<le> of_char c then Class neg False ((l, c) # rs) CNone
          else Bad ''bad character class range''))"

definition close_class :: "(char \<times> char) list \<Rightarrow> cpend \<Rightarrow> (char \<times> char) list" where
  "close_class rs pend = (case pend of
       CNone \<Rightarrow> rs
     | CChar l \<Rightarrow> (l, l) # rs
     | CDash l \<Rightarrow> (l, l) # (CHR ''-'', CHR ''-'') # rs)"

definition step_normal :: "frame list \<Rightarrow> char \<Rightarrow> pstate" where
  "step_normal st c =
     (if c = bslash then (Escape, st)
      else if c = CHR ''('' then (Group1, ([], [], 0) # st)
      else if c = CHR '')'' then
        (case st of
           f # (alts, cur, rep) # rest \<Rightarrow> (Normal, (alts, close_frame f # cur, 0) # rest)
         | _ \<Rightarrow> (Bad ''unexpected )'', st))
      else if c = CHR ''|'' then
        (case st of
           (alts, cur, rep) # rest \<Rightarrow> (Normal, (mk_seq cur # alts, [], 0) # rest)
         | [] \<Rightarrow> (Bad ''empty stack'', st))
      else if c = CHR ''*'' \<or> c = CHR ''+'' \<or> c = CHR ''?'' then repeat c st
      else if c = CHR ''.'' then push_atom Dot st
      else if c = CHR ''^'' then push_atom Bol st
      else if c = CHR ''$'' then push_atom Eol st
      else if c = CHR ''['' then (Class False True [] CNone, st)
      else if c = CHR ''{'' then (Bad ''outside the fragment: counted repetition'', st)
      else if 128 \<le> (of_char c :: nat) then (Bad ''outside the fragment: non-ASCII byte'', st)
      else push_atom (Chr c) st)"

definition step_class ::
  "bool \<Rightarrow> bool \<Rightarrow> (char \<times> char) list \<Rightarrow> cpend \<Rightarrow> frame list \<Rightarrow> char \<Rightarrow> pstate" where
  "step_class neg first rs pend st c =
     (if first \<and> \<not> neg \<and> c = CHR ''^'' then (Class True True [] CNone, st)
      else if c = CHR '']'' \<and> \<not> first then push_atom (Cls neg (close_class rs pend)) st
      else if c = bslash then (ClassEsc neg rs pend, st)
      else if c = CHR ''['' then (Bad ''outside the fragment: bracket inside a class'', st)
      else if 128 \<le> (of_char c :: nat) then (Bad ''outside the fragment: non-ASCII byte'', st)
      else if c = CHR ''-'' then
        (case pend of
           CChar l \<Rightarrow> (Class neg False rs (CDash l), st)
         | _ \<Rightarrow> (add_class_char c neg rs pend, st))
      else (add_class_char c neg rs pend, st))"

definition step :: "char \<Rightarrow> pstate \<Rightarrow> pstate" where
  "step c ps = (case ps of (mode, st) \<Rightarrow>
     (case mode of
        Bad e \<Rightarrow> (Bad e, st)
      | Normal \<Rightarrow> step_normal st c
      | Escape \<Rightarrow>
          (if is_punct c then push_atom (Chr c) st
           else (Bad ''outside the fragment: escape sequence'', st))
      | Group1 \<Rightarrow> (if c = CHR ''?'' then (Group2, st) else step_normal st c)
      | Group2 \<Rightarrow>
          (if c = CHR '':'' then (Normal, st)
           else (Bad ''outside the fragment: group flags'', st))
      | Class neg first rs pend \<Rightarrow> step_class neg first rs pend st c
      | ClassEsc neg rs pend \<Rightarrow>
          (if is_punct c then (add_class_char c neg rs pend, st)
           else (Bad ''outside the fragment: escape sequence'', st))))"

definition re2_parse :: "string \<Rightarrow> string + re" where
  "re2_parse p = (case fold step p (Normal, [([], [], 0)]) of
       (Normal, [f]) \<Rightarrow> Inr (close_frame f)
     | (Bad e, st) \<Rightarrow> Inl e
     | (Normal, st) \<Rightarrow> Inl ''missing closing )''
     | (Escape, st) \<Rightarrow> Inl ''trailing backslash''
     | (Group1, st) \<Rightarrow> Inl ''missing closing )''
     | (Group2, st) \<Rightarrow> Inl ''missing closing )''
     | (Class neg first rs pend, st) \<Rightarrow> Inl ''missing closing ]''
     | (ClassEsc neg rs pend, st) \<Rightarrow> Inl ''missing closing ]'')"

definition re2_Compile :: "string \<Rightarrow> string + (string \<Rightarrow> bool)" where
  "re2_Compile p = (case re2_parse p of Inl e \<Rightarrow> Inl e | Inr r \<Rightarrow> Inr (MatchString r))"

text \<open>
  \<^verbatim>\<open>regexp.QuoteMeta\<close>: a backslash before each of the bytes \<^verbatim>\<open>\.+*?()|[]{}^$\<close>.
\<close>

definition regexp_special :: "char \<Rightarrow> bool" where
  "regexp_special c = (c = bslash \<or> c \<in> set ''.+*?()|[]{}^$'')"

definition regexp_QuoteMeta :: "string \<Rightarrow> string" where
  "regexp_QuoteMeta s = concat (map (\<lambda>c. if regexp_special c then [bslash, c] else [c]) s)"

section \<open>The glob engine\<close>

text \<open>
  Modelled from the spec: the glob engine (package \<^verbatim>\<open>gobwas/glob\<close>) is an external library
  and not part of the sources; the specification delegates the glob grammar to it. The
  glob matcher takes the engine as a parameter. For statements about concrete globs this
  section gives an engine for the fragment without classes and alternatives, compiled
  without separators as the matcher does: \<^verbatim>\<open>*\<close> is any sequence of bytes, \<^verbatim>\<open>?\<close> is one byte, a
  backslash makes the next byte literal; a pattern with a bracket or a brace is outside
  the fragment and refused. \<^verbatim>\<open>glob.QuoteMeta\<close> puts a backslash before each of \<^verbatim>\<open>*?\[]{}\<close>.
\<close>

datatype gtok = GAny | GSingle | GChar char

fun glob_lex :: "string \<Rightarrow> string + gtok list" where
  "glob_lex [] = Inr []"
| "glob_lex [c] =
     (if c = bslash then Inl ''trailing backslash''
      else if c \<in> set ''[]{}'' then Inl ''outside the fragment''
      else Inr [if c = CHR ''*'' then GAny else if c = CHR ''?'' then GSingle else GChar c])"
| "glob_lex (c # d # cs) =
     (if c = bslash then map_sum id (\<lambda>ts. GChar d # ts) (glob_lex cs)
      else if c \<in> set ''[]{}'' then Inl ''outside the fragment''
      else map_sum id
        (\<lambda>ts. (if c = CHR ''*'' then GAny else if c = CHR ''?'' then GSingle else GChar c) # ts)
        (glob_lex (d # cs)))"

fun glob_match :: "gtok list \<Rightarrow> string \<Rightarrow> bool" where
  "glob_match [] s = (s = [])"
| "glob_match (GChar c # ts) [] = False"
| "glob_match (GChar c # ts) (d # ds) = (if c = d then glob_match ts ds else False)"
| "glob_match (GSingle # ts) [] = False"
| "glob_match (GSingle # ts) (d # ds) = glob_match ts ds"
| "glob_match (GAny # ts) [] = glob_match ts []"
| "glob_match (GAny # ts) (d # ds) =
     (if glob_match ts (d # ds) then True else glob_match (GAny # ts) ds)"

definition glob_model_Compile :: "string \<Rightarrow> string + (string \<Rightarrow> bool)" where
  "glob_model_Compile p = map_sum id glob_match (glob_lex p)"

definition glob_model_QuoteMeta :: "string \<Rightarrow> string" where
  "glob_model_QuoteMeta s =
     concat (map (\<lambda>c. if c = bslash \<or> c \<in> set ''*?[]{}'' then [bslash, c] else [c]) s)"

section \<open>Errors, contexts, results\<close>

text \<open>
  \<open>Canceled\<close> is what \<^verbatim>\<open>ctx.Err()\<close> returns once the context is done (\<^verbatim>\<open>context.Canceled\<close>
  or \<^verbatim>\<open>context.DeadlineExceeded\<close>); \<open>CompileError err path\<close> is the glob package's struct;
  \<open>Errorf\<close> is an error made by \<^verbatim>\<open>fmt.Errorf\<close>, with its text.
\<close>

datatype error = Canceled | CompileError string string | Errorf string

fun Error :: "error \<Rightarrow> string" where
  "Error Canceled = ''context canceled''"
| "Error (CompileError err path) = err"
| "Error (Errorf s) = s"

text \<open>
  A context is read only through \<^verbatim>\<open>ctx.Err()\<close> and \<^verbatim>\<open>ctx.Done()\<close>, and once done it stays
  done. For sequential code it is therefore modelled by the number of observations that
  still find it live: \<open>None\<close> is a context that is never done during the call,
  \<open>Some 0\<close> one that is done already, \<open>Some n\<close> one that is cancelled (or whose deadline
  passes) after \<open>n\<close> more observations. \<open>poll\<close> is one observation.
\<close>

type_synonym ctx = "nat option"

fun poll :: "ctx \<Rightarrow> error option \<times> ctx" where
  "poll None = (None, None)"
| "poll (Some 0) = (Some Canceled, Some 0)"
| "poll (Some (Suc n)) = (None, Some n)"

text \<open>
  A call returns a value, panics, or (only where goroutines are scheduled, see
  \<open>concurrentMatch\<close>) has not returned yet when the given schedule ends.
\<close>

datatype 'a outcome = Returns 'a | Panics | Pending

text \<open>
  \<^verbatim>\<open>match.Type\<close> and the implementations of the interface \<^verbatim>\<open>match.MatchInfo\<close>: the
  \<^verbatim>\<open>result\<close> structs of the three packages, each holding \<^verbatim>\<open>src\<close>, and \<^verbatim>\<open>dummyMatch\<close>.
\<close>

datatype match_Type = Unknown | GitIgnore | Glob | Regex

datatype MatchInfo =
    regex_result string | glob_result string | gitignore_result string | dummyMatch

definition NoMatch :: MatchInfo where
  "NoMatch = dummyMatch"

fun Src :: "MatchInfo \<Rightarrow> string" where
  "Src (regex_result s) = s"
| "Src (glob_result s) = s"
| "Src (gitignore_result s) = s"
| "Src dummyMatch = []"

fun Ok :: "MatchInfo \<Rightarrow> bool" where
  "Ok dummyMatch = False"
| "Ok r = (Src r \<noteq> [])"

fun Type :: "MatchInfo \<Rightarrow> match_Type" where
  "Type (regex_result s) = Regex"
| "Type (glob_result s) = Glob"
| "Type (gitignore_result s) = GitIgnore"
| "Type dummyMatch = Unknown"

text \<open>
  What the program takes from outside: the two engines, the file system and the path
  separator of the platform. Of the regular-expression engine the program uses the
  compilation of one expression and the compilation of a set of expressions. A compiled
  set reports the indices of the patterns that match an input, and the engine documents
  no order for them: \<open>set_prior E patterns s i j\<close> says that the set compiled from \<open>patterns\<close>
  puts index \<open>i\<close> before index \<open>j\<close> when it reports on the input \<open>s\<close>.
\<close>

record env =
  regexp_Compile :: "string \<Rightarrow> string + (string \<Rightarrow> bool)"
  set_prior :: "string list \<Rightarrow> string \<Rightarrow> nat \<Rightarrow> nat \<Rightarrow> bool"
  glob_Compile :: "string \<Rightarrow> string + (string \<Rightarrow> bool)"
  glob_QuoteMeta :: "string \<Rightarrow> string"
  os_ReadFile :: "string \<Rightarrow> string + string"
  os_PathSeparator :: char

text \<open>
  The engines of \<open>model_env\<close> are the two fragments above. RE2 arranges the patterns of a
  set in the bytewise order of their texts when it compiles the set, and the set of
  \<open>model_env\<close> reports the matching indices in that order, patterns with the same text in
  the order of their indices.
\<close>

fun bytes_le :: "string \<Rightarrow> string \<Rightarrow> bool" where
  "bytes_le [] t = True"
| "bytes_le (c # cs) [] = False"
| "bytes_le (c # cs) (d # ds) =
     (if c = d then bytes_le cs ds else (of_char c :: nat) < of_char d)"

definition model_env :: env where
  "model_env = \<lparr>regexp_Compile = re2_Compile,
     set_prior = (\<lambda>patterns s i j. bytes_le (patterns ! i) (patterns ! j)),
     glob_Compile = glob_model_Compile, glob_QuoteMeta = glob_model_QuoteMeta,
     os_ReadFile = (\<lambda>p. Inl ''no such file''), os_PathSeparator = CHR ''/''\<rparr>"

section \<open>The pattern set (\<^verbatim>\<open>match/re2set.go\<close>)\<close>

text \<open>
  The compiled set of the engine (\<^verbatim>\<open>re2exp.Set\<close>): its expressions, in the order of the
  patterns, and the order in which it reports indices.
\<close>

record re2exp_Set =
  exprs :: "(string \<Rightarrow> bool) list"
  prior :: "string \<Rightarrow> nat \<Rightarrow> nat \<Rightarrow> bool"

record RE2Set =
  src :: "string list"
  set_re2 :: re2exp_Set

text \<open>Compiling a list in order, stopping at the first pattern that fails.\<close>

fun compile_each :: "(string \<Rightarrow> string + 'c) \<Rightarrow> string list \<Rightarrow> (string \<times> string) + 'c list" where
  "compile_each C [] = Inr []"
| "compile_each C (p # ps) =
     (case C p of
        Inl e \<Rightarrow> Inl (p, e)
      | Inr g \<Rightarrow> (case compile_each C ps of Inl x \<Rightarrow> Inl x | Inr gs \<Rightarrow> Inr (g # gs)))"

text \<open>
  \<^verbatim>\<open>re2exp.CompileSet\<close> and \<^verbatim>\<open>Set.FindAllString\<close> belong to the external engine. Compilation
  fails as a whole if a pattern does not compile. \<^verbatim>\<open>FindAllString(s, n)\<close> returns at most \<open>n\<close>
  indices of patterns that match \<open>s\<close>, the first \<open>n\<close> in the order of the set: the ascending
  list of the matching indices is rearranged by inserting each index before the first one
  that the set puts it before. Whatever the order is, the result holds indices of matching
  patterns only (lemma \<open>FindAllString_sound\<close>).
\<close>

fun insert_by :: "(nat \<Rightarrow> nat \<Rightarrow> bool) \<Rightarrow> nat \<Rightarrow> nat list \<Rightarrow> nat list" where
  "insert_by before i [] = [i]"
| "insert_by before i (j # js) =
     (if before i j then i # j # js else j # insert_by before i js)"

definition order_by :: "(nat \<Rightarrow> nat \<Rightarrow> bool) \<Rightarrow> nat list \<Rightarrow> nat list" where
  "order_by before js = foldr (insert_by before) js []"

definition CompileSet :: "env \<Rightarrow> string list \<Rightarrow> error + re2exp_Set" where
  "CompileSet E patterns =
     (case compile_each (regexp_Compile E) patterns of
        Inl (p, e) \<Rightarrow> Inl (Errorf e)
      | Inr rs \<Rightarrow> Inr \<lparr>exprs = rs, prior = set_prior E patterns\<rparr>)"

definition FindAllString :: "re2exp_Set \<Rightarrow> string \<Rightarrow> nat \<Rightarrow> nat list" where
  "FindAllString st s n =
     take n (order_by (prior st s)
               (filter (\<lambda>i. (exprs st ! i) s) [0..<length (exprs st)]))"

definition NewRE2Set :: "env \<Rightarrow> string list \<Rightarrow> error + RE2Set" where
  "NewRE2Set E patterns =
     (if length patterns = 0 then Inl (Errorf ''empty input patterns'')
      else (case CompileSet E patterns of
          Inl err \<Rightarrow> Inl err
        | Inr s \<Rightarrow> Inr \<lparr>src = patterns, set_re2 = s\<rparr>))"

text \<open>
  \<^verbatim>\<open>Matches\<close> asks the set for one index and returns the pattern at it. The index is one
  of the set, which \<^verbatim>\<open>NewRE2Set\<close> builds with as many expressions as \<^verbatim>\<open>src\<close> has patterns, so
  \<^verbatim>\<open>s.src[res[0]]\<close> is in range (lemmas \<open>NewRE2Set_length\<close> and \<open>FindAllString_sound\<close>).
\<close>

definition Matches :: "RE2Set \<Rightarrow> string \<Rightarrow> bool \<times> string" where
  "Matches s path =
     (case FindAllString (set_re2 s) path 1 of
        [] \<Rightarrow> (False, [])
      | i # res \<Rightarrow> (True, src s ! i))"

section \<open>The regex matcher (package \<^verbatim>\<open>regex\<close>)\<close>

record regex_Options =
  Patterns_regex :: "string list"
  Parallel_regex :: bool
  Literals :: bool

record regex_Matcher =
  regexps :: "(string \<Rightarrow> bool) list"
  set_regex :: "RE2Set option"

definition quotePatterns :: "string list \<Rightarrow> string list" where
  "quotePatterns patterns = map regexp_QuoteMeta patterns"

definition NewMatcher_regex :: "env \<Rightarrow> regex_Options \<Rightarrow> error + regex_Matcher" where
  "NewMatcher_regex E opts =
     (if length (Patterns_regex opts) = 0
      then Inl (Errorf ''atleast one pattern required for regex matcher'')
      else
        (let patterns =
           (if Literals opts then [Join (quotePatterns (Patterns_regex opts)) ''|'']
            else Patterns_regex opts)
         in if Parallel_regex opts then
              (case NewRE2Set E patterns of
                 Inl e \<Rightarrow> Inl (Errorf (''patterns compilation - '' @ Error e))
               | Inr s \<Rightarrow> Inr \<lparr>regexps = [], set_regex = Some s\<rparr>)
            else
              (case compile_each (regexp_Compile E) patterns of
                 Inl (p, e) \<Rightarrow> Inl (Errorf (''pattern('' @ p @ '') compilation - '' @ e))
               | Inr res \<Rightarrow> Inr \<lparr>regexps = res, set_regex = None\<rparr>)))"

fun regex_loop ::
  "(string \<Rightarrow> bool) list \<Rightarrow> ctx \<Rightarrow> string \<Rightarrow> MatchInfo \<times> error option \<times> ctx" where
  "regex_loop [] c path = (regex_result [], None, c)"
| "regex_loop (r # rs) c path =
     (case poll c of
        (Some e, c') \<Rightarrow> (regex_result [], Some e, c')
      | (None, c') \<Rightarrow>
          (if r path then (regex_result path, None, c') else regex_loop rs c' path))"

text \<open>
  In the set branch the source writes \<^verbatim>\<open>ok, path := m.set.Matches(path)\<close>: the second result,
  the text of the pattern that matched, shadows the parameter, and it is what \<^verbatim>\<open>res.src\<close>
  receives.
\<close>

definition Match2_regex ::
  "regex_Matcher \<Rightarrow> ctx \<Rightarrow> string \<Rightarrow> MatchInfo \<times> error option \<times> ctx" where
  "Match2_regex m ctx path =
     (case poll ctx of
        (Some e, c) \<Rightarrow> (regex_result [], Some e, c)
      | (None, c) \<Rightarrow>
          (case set_regex m of
             Some s \<Rightarrow>
               (case Matches s path of
                  (True, pattern) \<Rightarrow> (regex_result pattern, None, c)
                | (False, pattern) \<Rightarrow> (regex_result [], None, c))
           | None \<Rightarrow> regex_loop (regexps m) c path))"

definition Match_regex :: "regex_Matcher \<Rightarrow> ctx \<Rightarrow> string \<Rightarrow> bool \<times> error option" where
  "Match_regex m ctx path =
     (case Match2_regex m ctx path of (res, err, c) \<Rightarrow> (Ok res, err))"

section \<open>The glob matcher (package \<^verbatim>\<open>glob\<close>)\<close>

record glob_Options =
  Patterns_glob :: "string list"
  RawPatterns :: "string list"

record glob_Matcher =
  globs :: "(string \<Rightarrow> bool) list"
  parallel :: bool

text \<open>
  The two loops of \<^verbatim>\<open>NewMatcher\<close> and of \<^verbatim>\<open>newStrictMatcher\<close>; \<open>q\<close> is the identity for
  \<^verbatim>\<open>Patterns\<close> and \<^verbatim>\<open>glob.QuoteMeta\<close> for \<^verbatim>\<open>RawPatterns\<close>. The error names the pattern as given,
  not its quoted form.
\<close>

fun lenient_loop ::
  "(string \<Rightarrow> string + 'g) \<Rightarrow> (string \<Rightarrow> string) \<Rightarrow> string list \<Rightarrow> 'g list \<times> error list
     \<Rightarrow> 'g list \<times> error list" where
  "lenient_loop C q [] acc = acc"
| "lenient_loop C q (p # ps) (gs, errs) =
     (case C (q p) of
        Inl err \<Rightarrow> lenient_loop C q ps (gs, errs @ [CompileError err p])
      | Inr g \<Rightarrow> lenient_loop C q ps (gs @ [g], errs))"

definition NewMatcher_glob :: "env \<Rightarrow> glob_Options \<Rightarrow> glob_Matcher \<times> error list" where
  "NewMatcher_glob E opts =
     (case lenient_loop (glob_Compile E) (glob_QuoteMeta E) (RawPatterns opts)
             (lenient_loop (glob_Compile E) id (Patterns_glob opts) ([], [])) of
        (gs, errs) \<Rightarrow> (\<lparr>globs = gs, parallel = False\<rparr>, errs))"

fun strict_loop ::
  "(string \<Rightarrow> string + 'g) \<Rightarrow> (string \<Rightarrow> string) \<Rightarrow> string list \<Rightarrow> 'g list \<Rightarrow> error + 'g list" where
  "strict_loop C q [] gs = Inr gs"
| "strict_loop C q (p # ps) gs =
     (case C (q p) of
        Inl err \<Rightarrow> Inl (CompileError err p)
      | Inr g \<Rightarrow> strict_loop C q ps (gs @ [g]))"

definition newStrictMatcher :: "env \<Rightarrow> glob_Options \<Rightarrow> bool \<Rightarrow> error + glob_Matcher" where
  "newStrictMatcher E opts llel =
     (case strict_loop (glob_Compile E) id (Patterns_glob opts) [] of
        Inl e \<Rightarrow> Inl e
      | Inr gs \<Rightarrow>
          (case strict_loop (glob_Compile E) (glob_QuoteMeta E) (RawPatterns opts) gs of
             Inl e \<Rightarrow> Inl e
           | Inr gs' \<Rightarrow> Inr \<lparr>globs = gs', parallel = llel\<rparr>))"

definition NewStrictMatcher :: "env \<Rightarrow> glob_Options \<Rightarrow> error + glob_Matcher" where
  "NewStrictMatcher E opts = newStrictMatcher E opts False"

definition NewStrictParallelMatcher :: "env \<Rightarrow> glob_Options \<Rightarrow> error + glob_Matcher" where
  "NewStrictParallelMatcher E opts = newStrictMatcher E opts True"

subsection \<open>The race of \<^verbatim>\<open>concurrentMatch\<close>\<close>

text \<open>
  \<^verbatim>\<open>concurrentMatch\<close> starts one goroutine per glob, one goroutine that closes the channel
  when all of them are finished, and then waits in a \<^verbatim>\<open>select\<close>. Its result depends on how
  the goroutines are scheduled and on when the caller's context is cancelled, so the model
  takes a schedule: the list of the events that happen, in their order.
  \<^item> \<open>Cancel\<close>: the caller's context is cancelled or its deadline passes; this also ends
    \<^verbatim>\<open>matchCtx\<close>, which is derived from it.
  \<^item> \<open>Run i\<close>: goroutine \<open>i\<close> runs up to its next communication. At its start it returns if
    \<^verbatim>\<open>matchCtx\<close> is done and otherwise tests its glob; in its \<^verbatim>\<open>select\<close> it sends the path if the
    buffer of the channel (of capacity one) is free, and otherwise gives up if \<^verbatim>\<open>matchCtx\<close> is
    done, and otherwise stays blocked; after the send it calls \<^verbatim>\<open>stopMatch\<close>.
  \<^item> \<open>RunDone i\<close>: goroutine \<open>i\<close> takes the \<^verbatim>\<open>matchCtx.Done()\<close> case of its \<^verbatim>\<open>select\<close> (when both
    cases are ready Go picks either).
  \<^item> \<open>Closer\<close>: the closing goroutine closes the channel if all goroutines are finished.
  \<^item> \<open>MainRecv\<close>, \<open>MainDone\<close>: the caller takes the receive case, or the \<^verbatim>\<open>matchCtx.Done()\<close>
    case, of the final \<^verbatim>\<open>select\<close>, if that case is ready.
  An event that is not enabled leaves the state as it is. Once the caller has returned
  the result is fixed and the state is no longer followed.
\<close>

datatype event = Cancel | Run nat | RunDone nat | Closer | MainRecv | MainDone

datatype wpc = AtStart | AtSelect | AtStop | Finished

record race =
  workers :: "wpc list"
  foundSrc :: "string option"
  closed :: bool
  matchDone :: bool
  parentDone :: bool
  ret :: "(string \<times> error option) option"

definition race_init :: "nat \<Rightarrow> race" where
  "race_init n = \<lparr>workers = replicate n AtStart, foundSrc = None, closed = False,
     matchDone = False, parentDone = False, ret = None\<rparr>"

definition run_worker :: "(string \<Rightarrow> bool) list \<Rightarrow> string \<Rightarrow> nat \<Rightarrow> race \<Rightarrow> race" where
  "run_worker gs path i st =
     (if i < length (workers st) \<and> i < length gs then
        (case workers st ! i of
           AtStart \<Rightarrow>
             (if matchDone st then st\<lparr>workers := (workers st)[i := Finished]\<rparr>
              else if (gs ! i) path then st\<lparr>workers := (workers st)[i := AtSelect]\<rparr>
              else st\<lparr>workers := (workers st)[i := Finished]\<rparr>)
         | AtSelect \<Rightarrow>
             (if foundSrc st = None
              then st\<lparr>workers := (workers st)[i := AtStop], foundSrc := Some path\<rparr>
              else if matchDone st then st\<lparr>workers := (workers st)[i := Finished]\<rparr>
              else st)
         | AtStop \<Rightarrow> st\<lparr>workers := (workers st)[i := Finished], matchDone := True\<rparr>
         | Finished \<Rightarrow> st)
      else st)"

definition race_step :: "(string \<Rightarrow> bool) list \<Rightarrow> string \<Rightarrow> event \<Rightarrow> race \<Rightarrow> race" where
  "race_step gs path ev st =
     (if ret st \<noteq> None then st
      else (case ev of
          Cancel \<Rightarrow> st\<lparr>matchDone := True, parentDone := True\<rparr>
        | Run i \<Rightarrow> run_worker gs path i st
        | RunDone i \<Rightarrow>
            (if i < length (workers st) \<and> workers st ! i = AtSelect \<and> matchDone st
             then st\<lparr>workers := (workers st)[i := Finished]\<rparr> else st)
        | Closer \<Rightarrow>
            (if list_all (\<lambda>w. w = Finished) (workers st) then st\<lparr>closed := True\<rparr> else st)
        | MainRecv \<Rightarrow>
            (case foundSrc st of
               Some p \<Rightarrow> st\<lparr>foundSrc := None, ret := Some (p, None)\<rparr>
             | None \<Rightarrow> (if closed st then st\<lparr>ret := Some ([], None)\<rparr> else st))
        | MainDone \<Rightarrow> (if matchDone st then st\<lparr>ret := Some ([], None)\<rparr> else st)))"

definition race_run :: "(string \<Rightarrow> bool) list \<Rightarrow> string \<Rightarrow> event list \<Rightarrow> race" where
  "race_run gs path sched = fold (race_step gs path) sched (race_init (length gs))"

definition concurrentMatch ::
  "glob_Matcher \<Rightarrow> string \<Rightarrow> event list \<Rightarrow> ((string \<times> error option) \<times> bool) outcome" where
  "concurrentMatch m path sched =
     (let st = race_run (globs m) path sched
      in case ret st of None \<Rightarrow> Pending | Some r \<Rightarrow> Returns (r, parentDone st))"

text \<open>
  A schedule that lets every goroutine run to its end, then the closing goroutine, then
  the caller: appended to any schedule it is a fair continuation without cancellation.
\<close>

definition drain :: "nat \<Rightarrow> event list" where
  "drain n = concat (map (\<lambda>i. [Run i, Run i, Run i]) [0..<n]) @ [Closer, MainRecv]"

fun glob_loop ::
  "(string \<Rightarrow> bool) list \<Rightarrow> ctx \<Rightarrow> string \<Rightarrow> MatchInfo \<times> error option \<times> ctx" where
  "glob_loop [] c path = (glob_result [], None, c)"
| "glob_loop (g # gs) c path =
     (case poll c of
        (Some e, c') \<Rightarrow> (glob_result [], Some e, c')
      | (None, c') \<Rightarrow>
          (if g path then (glob_result path, None, c') else glob_loop gs c' path))"

text \<open>
  \<^verbatim>\<open>Match2\<close>. In parallel mode the context that is handed on is done if the schedule
  cancelled it during the race.
\<close>

definition Match2_glob ::
  "glob_Matcher \<Rightarrow> ctx \<Rightarrow> event list \<Rightarrow> string \<Rightarrow> (MatchInfo \<times> error option \<times> ctx) outcome" where
  "Match2_glob m ctx sched path =
     (case poll ctx of
        (Some e, c) \<Rightarrow> Returns (NoMatch, Some e, c)
      | (None, c) \<Rightarrow>
          (if parallel m then
             (case concurrentMatch m path sched of
                Returns ((p, Some err), done) \<Rightarrow>
                  Returns (glob_result [], Some err, if done then Some 0 else c)
              | Returns ((p, None), done) \<Rightarrow>
                  Returns (glob_result p, None, if done then Some 0 else c)
              | Panics \<Rightarrow> Panics
              | Pending \<Rightarrow> Pending)
           else Returns (glob_loop (globs m) c path)))"

definition Match_glob ::
  "glob_Matcher \<Rightarrow> ctx \<Rightarrow> event list \<Rightarrow> string \<Rightarrow> (bool \<times> error option) outcome" where
  "Match_glob m ctx sched path =
     (case Match2_glob m ctx sched path of
        Returns (res, err, c) \<Rightarrow> Returns (Ok res, err)
      | Panics \<Rightarrow> Panics
      | Pending \<Rightarrow> Pending)"

section \<open>The gitignore matcher (package \<^verbatim>\<open>gitignore\<close>)\<close>

subsection \<open>The fixed expressions of the translator\<close>

text \<open>
  The translator uses nine fixed regular expressions. Six of them are a literal text,
  and replacing their matches is \<open>ReplaceAll\<close> with that text; the replacement templates
  contain no group reference (\<^verbatim>\<open>$~\<close> in the placeholder is not one and stays as it is).
  The other three are written out as functions on the line.
\<close>

text \<open>\<^verbatim>\<open>gitEscapedFirstChar = ^([#!])\<close>, used with \<^verbatim>\<open>MatchString\<close>.\<close>

definition gitEscapedFirstChar :: "string \<Rightarrow> bool" where
  "gitEscapedFirstChar l = (HasPrefix l ''#'' \<or> HasPrefix l ''!'')"

text \<open>
  \<^verbatim>\<open>gitDirFileEscape = ([^/+])/.*\*\.\<close>, used with \<^verbatim>\<open>MatchString\<close>: somewhere a byte other
  than \<^verbatim>\<open>/\<close> and \<^verbatim>\<open>+\<close>, then \<^verbatim>\<open>/\<close>, then after any bytes but a newline the two bytes \<^verbatim>\<open>*.\<close>
\<close>

fun star_dot_ahead :: "string \<Rightarrow> bool" where
  "star_dot_ahead [] = False"
| "star_dot_ahead (c # cs) =
     (if c = CHR ''*'' \<and> HasPrefix cs ''.'' then True
      else if c = CHR 0x0A then False
      else star_dot_ahead cs)"

fun gitDirFileEscape :: "string \<Rightarrow> bool" where
  "gitDirFileEscape (c # d # cs) =
     (if c \<noteq> CHR ''/'' \<and> c \<noteq> CHR ''+'' \<and> d = CHR ''/'' \<and> star_dot_ahead cs then True
      else gitDirFileEscape (d # cs))"
| "gitDirFileEscape l = False"

text \<open>
  \<^verbatim>\<open>gitQuestionMark = (^|[^\\])\?\<close> with the template \<^verbatim>\<open>$1[^/]\<close>: a question mark at the very
  begin of the line becomes \<^verbatim>\<open>[^/]\<close>; elsewhere a byte other than a backslash followed by a
  question mark becomes that byte followed by \<^verbatim>\<open>[^/]\<close>. Matches are taken from left to right
  and do not overlap; \<open>bos\<close> says that the position is the begin of the line.
\<close>

fun gitQuestionMark :: "bool \<Rightarrow> string \<Rightarrow> string" where
  "gitQuestionMark bos [] = []"
| "gitQuestionMark bos [c] = (if bos \<and> c = CHR ''?'' then ''[^/]'' else [c])"
| "gitQuestionMark bos (c # d # cs) =
     (if bos \<and> c = CHR ''?'' then ''[^/]'' @ gitQuestionMark False (d # cs)
      else if c \<noteq> bslash \<and> d = CHR ''?'' then c # ''[^/]'' @ gitQuestionMark False cs
      else c # gitQuestionMark False (d # cs))"

definition placeholder :: string where
  "placeholder = ''#$~''"

subsection \<open>\<^verbatim>\<open>parse\<close>\<close>

record rule =
  re :: "(string \<Rightarrow> bool) option"
  rule_src :: string
  rePat :: string

record parseOut =
  parsed_rule :: rule
  negate :: bool

text \<open>
  The steps of \<^verbatim>\<open>parse\<close> after the line is known not to be empty, in the order of the
  source. \<open>strip_negation\<close> is \<^verbatim>\<open>if l[0] == '!' { l = l[1:] }\<close>; \<open>translate\<close> is the chain of
  rewrites from the range negation down to the placeholder; \<open>anchor\<close> builds \<^verbatim>\<open>expr\<close>.
\<close>

definition strip_negation :: "string \<Rightarrow> string" where
  "strip_negation l = (if HasPrefix l ''!'' then drop 1 l else l)"

definition strip_first :: "string \<Rightarrow> string" where
  "strip_first l = (if gitEscapedFirstChar l then drop 1 l else l)"

definition dir_file_escape :: "string \<Rightarrow> string" where
  "dir_file_escape l = (if gitDirFileEscape l \<and> \<not> HasPrefix l ''/'' then ''/'' @ l else l)"

definition strip_leading_slash :: "string \<Rightarrow> string" where
  "strip_leading_slash l = (if HasPrefix l ''/**/'' then drop 1 l else l)"

definition translate :: "string \<Rightarrow> string" where
  "translate l =
     ReplaceAll
      (ReplaceAll
        (ReplaceAll
          (ReplaceAll
            (ReplaceAll
              (ReplaceAll
                (gitQuestionMark True
                  (strip_leading_slash
                    (ReplaceAll
                      (dir_file_escape (strip_first (ReplaceAll l ''[!'' ''[^'')))
                      ''.'' [bslash, CHR ''.''])))
                ''/**/'' ''(?:/|/.+/)'')
              ''**/'' (''(?:|.'' @ placeholder @ ''/)''))
            ''/**'' (''/.'' @ placeholder))
          [bslash, CHR ''*''] (bslash # placeholder))
        ''*'' ''[^/]*'')
      placeholder ''*''"

definition anchor :: "bool \<Rightarrow> bool \<Rightarrow> string \<Rightarrow> string" where
  "anchor hasfwSlashSuffix hasFwSlash l =
     (let expr = (if hasfwSlashSuffix then l @ ''(?:|.*)$'' else l @ ''(?:|/.*)$'')
      in if hasFwSlash
         then ''^(?:|/)'' @ (if HasPrefix l ''/'' then drop 1 expr else expr)
         else ''^(?:|.*/)'' @ expr)"

definition parse_line :: "string \<Rightarrow> string \<Rightarrow> parseOut" where
  "parse_line input l =
     \<lparr>parsed_rule =
        \<lparr>re = None, rule_src = input,
         rePat = anchor (HasSuffix l ''/'') (Contains (butlast l) ''/'')
                   (translate (strip_negation l))\<rparr>,
      negate = HasPrefix l ''!''\<rparr>"

text \<open>
  \<^verbatim>\<open>parse\<close> returns \<^verbatim>\<open>nil, nil\<close> for a line to skip and never returns an error; \<open>None\<close> is
  the skipped line. The comment test comes before the spaces are trimmed.
\<close>

definition parse :: "string \<Rightarrow> parseOut option" where
  "parse input =
     (if HasPrefix (TrimRight input [CHR 0x0D]) ''#'' then None
      else if Trim (TrimRight input [CHR 0x0D]) '' '' = [] then None
      else Some (parse_line input (Trim (TrimRight input [CHR 0x0D]) '' '')))"

subsection \<open>Construction\<close>

record git_Options =
  Patterns_git :: "string list"
  FilePath :: string

record git_Matcher =
  src_git :: "string list"
  posRules :: "rule list"
  negRules :: "rule list"
  posSet :: "RE2Set option"
  negSet :: "RE2Set option"

definition readPath :: "env \<Rightarrow> string \<Rightarrow> string + string list" where
  "readPath E gitignorePath =
     (case os_ReadFile E gitignorePath of
        Inl err \<Rightarrow> Inl err
      | Inr data \<Rightarrow> Inr (Split data (CHR 0x0A)))"

text \<open>The loop over the pattern lines; the two lists are \<^verbatim>\<open>posRules\<close> and \<^verbatim>\<open>negRules\<close>.\<close>

fun rules_loop ::
  "env \<Rightarrow> bool \<Rightarrow> string list \<Rightarrow> rule list \<times> rule list \<Rightarrow> error + (rule list \<times> rule list)" where
  "rules_loop E par [] acc = Inr acc"
| "rules_loop E par (pattern # ps) (pos, neg) =
     (case parse pattern of
        None \<Rightarrow> rules_loop E par ps (pos, neg)
      | Some res \<Rightarrow>
          (if par then
             (if negate res then rules_loop E par ps (pos, neg @ [parsed_rule res])
              else rules_loop E par ps (pos @ [parsed_rule res], neg))
           else
             (case regexp_Compile E (rePat (parsed_rule res)) of
                Inl err \<Rightarrow> Inl (Errorf (''compile pattern '' @ pattern @ '' - '' @ err))
              | Inr rx \<Rightarrow>
                  (if negate res
                   then rules_loop E par ps (pos, neg @ [(parsed_rule res)\<lparr>re := Some rx\<rparr>])
                   else rules_loop E par ps (pos @ [(parsed_rule res)\<lparr>re := Some rx\<rparr>], neg)))))"

definition newMatcher_git :: "env \<Rightarrow> git_Options \<Rightarrow> bool \<Rightarrow> error + git_Matcher" where
  "newMatcher_git E opts par =
     (if length (Patterns_git opts) = 0 \<and> FilePath opts = []
      then Inl (Errorf ''atleast one gitignore source required: file or lines'')
      else
       (case (if FilePath opts \<noteq> [] then
                (case readPath E (FilePath opts) of
                   Inl err \<Rightarrow> Inl (Errorf (''read gitignore file: '' @ err))
                 | Inr patterns \<Rightarrow> Inr (Patterns_git opts @ patterns))
              else Inr (Patterns_git opts)) of
          Inl e \<Rightarrow> Inl e
        | Inr patterns \<Rightarrow>
           (case rules_loop E par patterns ([], []) of
              Inl e \<Rightarrow> Inl e
            | Inr (pos, neg) \<Rightarrow>
               (if par then
                  (case NewRE2Set E (map rePat pos) of
                     Inl err \<Rightarrow> Inl (Errorf (''parallel: re2 set - '' @ Error err))
                   | Inr pset \<Rightarrow>
                      (if 0 < length neg then
                         (case NewRE2Set E (map rePat neg) of
                            Inl err \<Rightarrow> Inl (Errorf (''parallel: negation re2 set - '' @ Error err))
                          | Inr nset \<Rightarrow>
                              Inr \<lparr>src_git = patterns, posRules = pos, negRules = neg,
                                   posSet = Some pset, negSet = Some nset\<rparr>)
                       else Inr \<lparr>src_git = patterns, posRules = pos, negRules = neg,
                                 posSet = Some pset, negSet = None\<rparr>))
                else Inr \<lparr>src_git = patterns, posRules = pos, negRules = neg,
                          posSet = None, negSet = None\<rparr>))))"

definition NewMatcher_git :: "env \<Rightarrow> git_Options \<Rightarrow> error + git_Matcher" where
  "NewMatcher_git E opts = newMatcher_git E opts False"

definition NewParallelMatcher_git :: "env \<Rightarrow> git_Options \<Rightarrow> error + git_Matcher" where
  "NewParallelMatcher_git E opts = newMatcher_git E opts True"

subsection \<open>\<^verbatim>\<open>Match2\<close>\<close>

text \<open>
  The first half of \<^verbatim>\<open>Match2\<close> either returns early (left) or goes on with \<^verbatim>\<open>matchPath\<close> and
  the context (right). Calling \<^verbatim>\<open>MatchString\<close> on a rule whose \<^verbatim>\<open>re\<close> is nil panics.
\<close>

fun pos_loop ::
  "rule list \<Rightarrow> ctx \<Rightarrow> string \<Rightarrow> ((MatchInfo \<times> error option \<times> ctx) + (string \<times> ctx)) outcome" where
  "pos_loop [] c path = Returns (Inr ([], c))"
| "pos_loop (r # rs) c path =
     (case poll c of
        (Some e, c') \<Rightarrow> Returns (Inl (gitignore_result [], Some e, c'))
      | (None, c') \<Rightarrow>
          (case re r of
             None \<Rightarrow> Panics
           | Some rx \<Rightarrow> (if rx path then Returns (Inr (rule_src r, c')) else pos_loop rs c' path)))"

fun neg_loop ::
  "rule list \<Rightarrow> ctx \<Rightarrow> string \<Rightarrow> string \<Rightarrow> (MatchInfo \<times> error option \<times> ctx) outcome" where
  "neg_loop [] c path matchPath = Returns (gitignore_result matchPath, None, c)"
| "neg_loop (r # rs) c path matchPath =
     (case poll c of
        (Some e, c') \<Rightarrow> Returns (gitignore_result matchPath, Some e, c')
      | (None, c') \<Rightarrow>
          (case re r of
             None \<Rightarrow> Panics
           | Some rx \<Rightarrow>
               (if rx path then Returns (gitignore_result [], None, c')
                else neg_loop rs c' path matchPath)))"

definition positive_phase ::
  "git_Matcher \<Rightarrow> ctx \<Rightarrow> string \<Rightarrow> ((MatchInfo \<times> error option \<times> ctx) + (string \<times> ctx)) outcome" where
  "positive_phase gi ctx path =
     (case posSet gi of
        Some pset \<Rightarrow>
          (case poll ctx of
             (Some e, c) \<Rightarrow> Returns (Inl (gitignore_result [], Some e, c))
           | (None, c) \<Rightarrow> Returns (Inr (snd (Matches pset path), c)))
      | None \<Rightarrow> pos_loop (posRules gi) ctx path)"

text \<open>
  In the set branch of the second half the source writes
  \<^verbatim>\<open>if ok, path := gi.negSet.Matches(path); ok { res.src = path }\<close>: when a negative pattern
  matches, \<^verbatim>\<open>res.src\<close> receives the text of that pattern.
\<close>

definition negative_phase ::
  "git_Matcher \<Rightarrow> ctx \<Rightarrow> string \<Rightarrow> string \<Rightarrow> (MatchInfo \<times> error option \<times> ctx) outcome" where
  "negative_phase gi c path matchPath =
     (case negSet gi of
        Some nset \<Rightarrow>
          (case poll c of
             (Some e, c') \<Rightarrow> Returns (gitignore_result matchPath, Some e, c')
           | (None, c') \<Rightarrow>
               (case Matches nset path of
                  (True, pattern) \<Rightarrow> Returns (gitignore_result pattern, None, c')
                | (False, pattern) \<Rightarrow> Returns (gitignore_result matchPath, None, c')))
      | None \<Rightarrow> neg_loop (negRules gi) c path matchPath)"

definition Match2_git ::
  "env \<Rightarrow> git_Matcher \<Rightarrow> ctx \<Rightarrow> string \<Rightarrow> (MatchInfo \<times> error option \<times> ctx) outcome" where
  "Match2_git E gi ctx path0 =
     (case positive_phase gi ctx (ReplaceAll path0 [os_PathSeparator E] ''/'') of
        Panics \<Rightarrow> Panics
      | Pending \<Rightarrow> Pending
      | Returns (Inl early) \<Rightarrow> Returns early
      | Returns (Inr (matchPath, c)) \<Rightarrow>
          (if matchPath = [] then Returns (gitignore_result [], None, c)
           else negative_phase gi c (ReplaceAll path0 [os_PathSeparator E] ''/'') matchPath))"

definition Match_git ::
  "env \<Rightarrow> git_Matcher \<Rightarrow> ctx \<Rightarrow> string \<Rightarrow> (bool \<times> error option) outcome" where
  "Match_git E gi ctx path =
     (case Match2_git E gi ctx path of
        Returns (res, err, c) \<Rightarrow> Returns (Ok res, err)
      | Panics \<Rightarrow> Panics
      | Pending \<Rightarrow> Pending)"

section \<open>The combinator (package \<^verbatim>\<open>gopathignore\<close>)\<close>

text \<open>The interface \<^verbatim>\<open>match.PathMatcher\<close> has the three matchers as its implementations.\<close>

datatype PathMatcher =
    RegexMatcher regex_Matcher | GlobMatcher glob_Matcher | GitIgnoreMatcher git_Matcher

fun PathMatcher_Type :: "PathMatcher \<Rightarrow> match_Type" where
  "PathMatcher_Type (RegexMatcher m) = Regex"
| "PathMatcher_Type (GlobMatcher m) = Glob"
| "PathMatcher_Type (GitIgnoreMatcher m) = GitIgnore"

fun PathMatcher_Match2 ::
  "env \<Rightarrow> PathMatcher \<Rightarrow> ctx \<Rightarrow> event list \<Rightarrow> string
     \<Rightarrow> (MatchInfo \<times> error option \<times> ctx) outcome" where
  "PathMatcher_Match2 E (RegexMatcher m) ctx sched path = Returns (Match2_regex m ctx path)"
| "PathMatcher_Match2 E (GlobMatcher m) ctx sched path = Match2_glob m ctx sched path"
| "PathMatcher_Match2 E (GitIgnoreMatcher m) ctx sched path = Match2_git E m ctx path"

record PathIgnore =
  matchers :: "PathMatcher list"
  timeout :: int

record Options =
  Regex_opts :: "regex_Options option"
  Glob_opts :: "glob_Options option"
  GitIgnore_opts :: "git_Options option"
  Timeout :: int
  Parallel :: bool

text \<open>
  Modelled from the spec: the constructors \<^verbatim>\<open>regex.NewMatcher\<close> and
  \<^verbatim>\<open>regex.NewParallelMatcher\<close> that \<^verbatim>\<open>New\<close> calls are not in the sources, which hold the regex
  package with one constructor and a \<^verbatim>\<open>Parallel\<close> option. Section 4.2: with \<^verbatim>\<open>concurrent\<close> the
  patterns compile into a pattern set, otherwise each compiles on its own.
\<close>

definition regex_NewMatcher :: "env \<Rightarrow> regex_Options \<Rightarrow> error + regex_Matcher" where
  "regex_NewMatcher E opts = NewMatcher_regex E (opts\<lparr>Parallel_regex := False\<rparr>)"

definition regex_NewParallelMatcher :: "env \<Rightarrow> regex_Options \<Rightarrow> error + regex_Matcher" where
  "regex_NewParallelMatcher E opts = NewMatcher_regex E (opts\<lparr>Parallel_regex := True\<rparr>)"

text \<open>
  \<^verbatim>\<open>New\<close> appends the regex matcher, then the gitignore matcher, then the glob matcher.
  Each of the three steps either fails or extends the list.
\<close>

definition add_regex :: "env \<Rightarrow> Options \<Rightarrow> PathMatcher list \<Rightarrow> error + PathMatcher list" where
  "add_regex E opts ms =
     (case Regex_opts opts of
        None \<Rightarrow> Inr ms
      | Some ro \<Rightarrow>
          (case (if Parallel opts then regex_NewParallelMatcher E ro else regex_NewMatcher E ro) of
             Inl err \<Rightarrow> Inl (Errorf (''regex - '' @ Error err))
           | Inr m \<Rightarrow> Inr (ms @ [RegexMatcher m])))"

definition add_gitignore :: "env \<Rightarrow> Options \<Rightarrow> PathMatcher list \<Rightarrow> error + PathMatcher list" where
  "add_gitignore E opts ms =
     (case GitIgnore_opts opts of
        None \<Rightarrow> Inr ms
      | Some gio \<Rightarrow>
          (case (if Parallel opts then NewParallelMatcher_git E gio else NewMatcher_git E gio) of
             Inl err \<Rightarrow> Inl (Errorf (''gitignore - '' @ Error err))
           | Inr m \<Rightarrow> Inr (ms @ [GitIgnoreMatcher m])))"

definition add_glob :: "env \<Rightarrow> Options \<Rightarrow> PathMatcher list \<Rightarrow> error + PathMatcher list" where
  "add_glob E opts ms =
     (case Glob_opts opts of
        None \<Rightarrow> Inr ms
      | Some go \<Rightarrow>
          (case (if Parallel opts then NewStrictParallelMatcher E go else NewStrictMatcher E go) of
             Inl err \<Rightarrow> Inl (Errorf (''glob - '' @ Error err))
           | Inr m \<Rightarrow> Inr (ms @ [GlobMatcher m])))"

definition New :: "env \<Rightarrow> Options \<Rightarrow> error + PathIgnore" where
  "New E opts =
     (if \<not> (Regex_opts opts \<noteq> None \<or> Glob_opts opts \<noteq> None \<or> GitIgnore_opts opts \<noteq> None)
      then Inl (Errorf ''atleast one matching strategy required'')
      else
        (case add_regex E opts [] of
           Inl e \<Rightarrow> Inl e
         | Inr ms1 \<Rightarrow>
             (case add_gitignore E opts ms1 of
                Inl e \<Rightarrow> Inl e
              | Inr ms2 \<Rightarrow>
                  (case add_glob E opts ms2 of
                     Inl e \<Rightarrow> Inl e
                   | Inr ms3 \<Rightarrow> Inr \<lparr>matchers = ms3, timeout = Timeout opts\<rparr>))))"

text \<open>
  \<^verbatim>\<open>context.WithTimeout(ctx, timeout)\<close> is done when its parent is, or when its timer fires.
  Durations are not part of the model: \<open>timer\<close> is the context of the timer alone (after
  how many observations it fires, if it does during the call). A negative duration is a
  deadline in the past; the duration 0 is replaced by an hour before the call.
\<close>

definition WithTimeout :: "ctx \<Rightarrow> int \<Rightarrow> ctx \<Rightarrow> ctx" where
  "WithTimeout ctx d timer =
     (if d \<le> 0 then Some 0
      else (case (ctx, timer) of
          (None, t) \<Rightarrow> t
        | (Some a, None) \<Rightarrow> Some a
        | (Some a, Some b) \<Rightarrow> Some (min a b)))"

definition Hour :: int where
  "Hour = 3600000000000"

text \<open>
  The loop of \<^verbatim>\<open>PathIgnore.Match2\<close>. On an error it returns the nil interface value (\<open>None\<close>)
  with the error.
\<close>

fun matchers_loop ::
  "env \<Rightarrow> PathMatcher list \<Rightarrow> ctx \<Rightarrow> event list \<Rightarrow> string
     \<Rightarrow> (MatchInfo option \<times> error option) outcome" where
  "matchers_loop E [] c sched path = Returns (Some NoMatch, None)"
| "matchers_loop E (matcher # ms) c sched path =
     (case PathMatcher_Match2 E matcher c sched path of
        Panics \<Rightarrow> Panics
      | Pending \<Rightarrow> Pending
      | Returns (m, Some err, c') \<Rightarrow> Returns (None, Some err)
      | Returns (m, None, c') \<Rightarrow>
          (if Ok m then Returns (Some m, None) else matchers_loop E ms c' sched path))"

definition PathIgnore_Match2 ::
  "env \<Rightarrow> PathIgnore \<Rightarrow> ctx \<Rightarrow> ctx \<Rightarrow> event list \<Rightarrow> string
     \<Rightarrow> (MatchInfo option \<times> error option) outcome" where
  "PathIgnore_Match2 E pi ctx timer sched path =
     matchers_loop E (matchers pi)
       (WithTimeout ctx (if timeout pi = 0 then Hour else timeout pi) timer) sched path"

text \<open>\<^verbatim>\<open>PathIgnore.Match\<close> calls \<^verbatim>\<open>res.Ok()\<close> on what \<^verbatim>\<open>Match2\<close> returned, also when that is nil.\<close>

definition PathIgnore_Match ::
  "env \<Rightarrow> PathIgnore \<Rightarrow> ctx \<Rightarrow> ctx \<Rightarrow> event list \<Rightarrow> string \<Rightarrow> (bool \<times> error option) outcome" where
  "PathIgnore_Match E pi ctx timer sched path =
     (case PathIgnore_Match2 E pi ctx timer sched path of
        Panics \<Rightarrow> Panics
      | Pending \<Rightarrow> Pending
      | Returns (None, err) \<Rightarrow> Panics
      | Returns (Some res, err) \<Rightarrow> Returns (Ok res, err))"

section \<open>Constructing and then matching\<close>

text \<open>
  The tests of the packages construct a matcher from options and then match one path.
  The same is done here in one function per package, so that a statement about concrete
  pattern texts can name the options and the path and nothing else.
\<close>

definition RE2Set_Matches_of :: "env \<Rightarrow> string list \<Rightarrow> string \<Rightarrow> error + (bool \<times> string)" where
  "RE2Set_Matches_of E patterns path =
     (case NewRE2Set E patterns of Inl e \<Rightarrow> Inl e | Inr s \<Rightarrow> Inr (Matches s path))"

definition regex_Match2_of ::
  "env \<Rightarrow> regex_Options \<Rightarrow> ctx \<Rightarrow> string \<Rightarrow> error + (MatchInfo \<times> error option \<times> ctx)" where
  "regex_Match2_of E opts ctx path =
     (case NewMatcher_regex E opts of Inl e \<Rightarrow> Inl e | Inr m \<Rightarrow> Inr (Match2_regex m ctx path))"

definition regex_Match_of ::
  "env \<Rightarrow> regex_Options \<Rightarrow> ctx \<Rightarrow> string \<Rightarrow> error + (bool \<times> error option)" where
  "regex_Match_of E opts ctx path =
     (case NewMatcher_regex E opts of Inl e \<Rightarrow> Inl e | Inr m \<Rightarrow> Inr (Match_regex m ctx path))"

definition glob_Match_of ::
  "env \<Rightarrow> glob_Options \<Rightarrow> bool \<Rightarrow> ctx \<Rightarrow> event list \<Rightarrow> string
     \<Rightarrow> error + (bool \<times> error option) outcome" where
  "glob_Match_of E opts llel ctx sched path =
     (case newStrictMatcher E opts llel of
        Inl e \<Rightarrow> Inl e
      | Inr m \<Rightarrow> Inr (Match_glob m ctx sched path))"

definition git_Match2_of ::
  "env \<Rightarrow> git_Options \<Rightarrow> bool \<Rightarrow> ctx \<Rightarrow> string
     \<Rightarrow> error + (MatchInfo \<times> error option \<times> ctx) outcome" where
  "git_Match2_of E opts par ctx path =
     (case newMatcher_git E opts par of
        Inl e \<Rightarrow> Inl e
      | Inr m \<Rightarrow> Inr (Match2_git E m ctx path))"

definition git_Match_of ::
  "env \<Rightarrow> git_Options \<Rightarrow> bool \<Rightarrow> ctx \<Rightarrow> string \<Rightarrow> error + (bool \<times> error option) outcome" where
  "git_Match_of E opts par ctx path =
     (case newMatcher_git E opts par of
        Inl e \<Rightarrow> Inl e
      | Inr m \<Rightarrow> Inr (Match_git E m ctx path))"

definition New_Match2_of ::
  "env \<Rightarrow> Options \<Rightarrow> ctx \<Rightarrow> ctx \<Rightarrow> event list \<Rightarrow> string
     \<Rightarrow> error + (MatchInfo option \<times> error option) outcome" where
  "New_Match2_of E opts ctx timer sched path =
     (case New E opts of
        Inl e \<Rightarrow> Inl e
      | Inr pi \<Rightarrow> Inr (PathIgnore_Match2 E pi ctx timer sched path))"

definition New_Match_of ::
  "env \<Rightarrow> Options \<Rightarrow> ctx \<Rightarrow> ctx \<Rightarrow> event list \<Rightarrow> string
     \<Rightarrow> error + (bool \<times> error option) outcome" where
  "New_Match_of E opts ctx timer sched path =
     (case New E opts of
        Inl e \<Rightarrow> Inl e
      | Inr pi \<Rightarrow> Inr (PathIgnore_Match E pi ctx timer sched path))"

text \<open>The rule that one pattern line is translated to, as the pair of \<^verbatim>\<open>rePat\<close> and \<^verbatim>\<open>negate\<close>.\<close>

definition parse_rePat :: "string \<Rightarrow> (string \<times> bool) option" where
  "parse_rePat l = map_option (\<lambda>p. (rePat (parsed_rule p), negate p)) (parse l)"

section \<open>Specification-level notions\<close>

text \<open>
  Glob construction, in the words of the specification: the patterns that compiled
  successfully, and one compile error naming the pattern text for each pattern that failed.
  \<open>q\<close> is the quoting applied before compilation.
\<close>

definition compiled_ok :: "(string \<Rightarrow> string + 'g) \<Rightarrow> (string \<Rightarrow> string) \<Rightarrow> string list \<Rightarrow> 'g list" where
  "compiled_ok C q ps = concat (map (\<lambda>p. case C (q p) of Inl e \<Rightarrow> [] | Inr g \<Rightarrow> [g]) ps)"

definition compile_errors ::
  "(string \<Rightarrow> string + 'g) \<Rightarrow> (string \<Rightarrow> string) \<Rightarrow> string list \<Rightarrow> error list" where
  "compile_errors C q ps =
     concat (map (\<lambda>p. case C (q p) of Inl e \<Rightarrow> [CompileError e p] | Inr g \<Rightarrow> []) ps)"

text \<open>
  A pattern text matches an input when the engine compiles it and the compiled expression
  matches the input.
\<close>

definition pattern_matches :: "env \<Rightarrow> string \<Rightarrow> string \<Rightarrow> bool" where
  "pattern_matches E p input = (case regexp_Compile E p of Inl e \<Rightarrow> False | Inr rx \<Rightarrow> rx input)"

text \<open>The pattern texts that the regex matcher compiles: in literal mode the one alternation.\<close>

definition regex_patterns :: "regex_Options \<Rightarrow> string list" where
  "regex_patterns opts =
     (if Literals opts then [Join (quotePatterns (Patterns_regex opts)) ''|'']
      else Patterns_regex opts)"

text \<open>
  The configuration of the combinator, in the words of the specification: the optional
  configurations of the dialects in the order regex, gitignore, glob. \<open>configured_matchers\<close>
  lists in that order, for each dialect that is configured, what its constructor returns
  in the mode that \<^verbatim>\<open>Parallel\<close> selects.
\<close>

definition configured_matchers :: "env \<Rightarrow> Options \<Rightarrow> (error + PathMatcher) list" where
  "configured_matchers E opts =
     (case Regex_opts opts of
        None \<Rightarrow> []
      | Some ro \<Rightarrow>
          [map_sum id RegexMatcher
             (if Parallel opts then regex_NewParallelMatcher E ro else regex_NewMatcher E ro)])
     @ (case GitIgnore_opts opts of
          None \<Rightarrow> []
        | Some gio \<Rightarrow>
            [map_sum id GitIgnoreMatcher
               (if Parallel opts then NewParallelMatcher_git E gio else NewMatcher_git E gio)])
     @ (case Glob_opts opts of
          None \<Rightarrow> []
        | Some go \<Rightarrow>
            [map_sum id GlobMatcher
               (if Parallel opts then NewStrictParallelMatcher E go else NewStrictMatcher E go)])"

text \<open>
  A rule as the sequential construction leaves it: its source line is not empty and its
  \<^verbatim>\<open>re\<close> is the compiled \<^verbatim>\<open>rePat\<close>. \<open>some_rule_matches\<close> says that the translation of some
  rule of a group matches the path.
\<close>

definition compiled_rule :: "env \<Rightarrow> rule \<Rightarrow> bool" where
  "compiled_rule E r =
     (rule_src r \<noteq> [] \<and> rePat r \<noteq> []
      \<and> (case re r of None \<Rightarrow> False | Some rx \<Rightarrow> regexp_Compile E (rePat r) = Inr rx))"

definition some_rule_matches :: "env \<Rightarrow> rule list \<Rightarrow> string \<Rightarrow> bool" where
  "some_rule_matches E rs path = list_ex (\<lambda>r. pattern_matches E (rePat r) path) rs"

text \<open>The invariant of the race for safety, and the notions used to show that it returns.\<close>

definition race_inv :: "string \<Rightarrow> race \<Rightarrow> bool" where
  "race_inv path st =
     ((foundSrc st = None \<or> foundSrc st = Some path)
      \<and> (ret st = None \<or> ret st = Some (path, None) \<or> ret st = Some ([], None)))"

definition settled :: "race \<Rightarrow> bool" where
  "settled st = (ret st \<noteq> None \<or> foundSrc st \<noteq> None)"

definition runs :: "nat \<Rightarrow> event list" where
  "runs n = concat (map (\<lambda>i. [Run i, Run i, Run i]) [0..<n])"

text \<open>
  The table of the test \<^verbatim>\<open>TestGitIgnoreMatches\<close> (Individual Patterns) of the gitignore
  package: a pattern line, the paths it has to match and the paths it must not match. The
  test writes the line and a newline to a file and constructs the matcher from the file,
  which gives the two lines \<open>[pattern, []]\<close>.
\<close>

definition individual_patterns :: "(string \<times> string list \<times> string list) list" where
  "individual_patterns = [
    (''*.log'',
      [''debug.log'', ''error.log'', ''src/debug.log'', ''src/test/error.log'',
       ''a/b/c/d/file.log'', ''.log''],
      [''log'', ''debug.txt'', ''error.log.bak'']),
    (''*.[oa]'',
      [''file.o'', ''lib.a'', ''src/internal.o'', ''build/output.a''],
      [''file.obj'', ''archive.tar'', ''test.c'']),
    (''build/'',
      [''build/'', ''src/build/'', ''project/src/build/''],
      [''build'', ''build.txt'', ''mybuild/'']),
    (''/TODO'',
      [''TODO''],
      [''src/TODO'', ''doc/TODO'', ''a/b/TODO'']),
    (''doc/frotz'',
      [''doc/frotz''],
      [''frotz'', ''src/doc/frotz'', ''a/doc/frotz'', ''doc/src/frotz'']),
    (''foo/*'',
      [''foo/test.json'', ''foo/bar'', ''foo/index.html'', ''foo/bar/hello.c'',
       ''foo/bar/test.txt''],
      [''src/foo/test.json'', ''abc/src/foo/'']),
    (''**/logs'',
      [''logs'', ''build/logs'', ''a/b/c/logs'', ''src/test/logs'',
       ''logs/debug.log''],
      [''logs.txt'', ''mylogs'']),
    (''a/**/b'',
      [''a/b'', ''a/x/b'', ''a/x/y/b'', ''a/x/y/z/b'', ''a/b/c'', ''a/b/x/y''],
      [''b'', ''x/a/b'']),
    (''abc/**'',
      [''abc/file.txt'', ''abc/x/file.txt'', ''abc/x/y/z/deep.txt''],
      [''abc'', ''xabc/file.txt'', ''abcd/file.txt'']),
    (''?.txt'',
      [''a.txt'', ''b.txt'', ''1.txt''],
      [''ab.txt'', ''test.txt'', ''.txt'']),
    (''[a-z].txt'',
      [''a.txt'', ''m.txt'', ''z.txt''],
      [''1.txt'', ''ab.txt'']),
    (([bslash] @ ''#file.txt''),
      [''#file.txt''],
      [''file.txt'', ([bslash] @ ''#file.txt'')]),
    ((''foo'' @ [bslash] @ ''*.txt''),
      [''foo*.txt''],
      [''foobar.txt'', ''foo.txt'']),
    (''.gitignore'',
      [''.gitignore'', ''src/.gitignore'', ''docs/project/.gitignore''],
      [''gitignore'', ''.gitignore.bak'']),
    (''node_modules/'',
      [''node_modules/'', ''project/node_modules/'', ''src/frontend/node_modules/''],
      [''node_modules.bak/'', ''my_node_modules/'']),
    (''.DS_Store'',
      [''.DS_Store'', ''src/.DS_Store'', ''a/b/c/.DS_Store''],
      [''DS_Store'', ''.DS_Store.backup'']),
    (''/bin/'',
      [''bin/''],
      [''src/bin/'', ''tools/bin/'']),
    (''logs/*'',
      [''logs/debug.log'', ''logs/error.log'', ''logs/app.log'',
       ''logs/2024/debug.log''],
      [''src/logs/error.log'', ''abc/src/logs'']),
    (''src/*.c'',
      [''src/main.c'', ''src/util.c''],
      [''src/subdir/main.c'', ''main.c'', ''src/main.h'']),
    (''**/cache/**'',
      [''cache/file.tmp'', ''src/cache/data.bin'', ''a/b/cache/x/y/file.tmp''],
      [''cached/file.tmp'', ''mycache/file.tmp'']),
    (''*.swp'',
      [''.file.swp'', ''main.c.swp'', ''src/.index.swp''],
      [''swp'', ''file.swap'']),
    (''*.[Ll]og'',
      [''app.log'', ''debug.Log''],
      [''app.logg'', ''app.Labc'']),
    (''docs/**/*.md'',
      [''docs/README.md'', ''docs/api/endpoints.md'', ''docs/guide/intro.md''],
      [''README.md'', ''src/docs/README.md'']),
    (''.env*'',
      [''.env'', ''.env.local'', ''.env.production'', ''config/.env.test''],
      [''env'', ''environment.txt'']),
    (''**/*.test.js'',
      [''app.test.js'', ''src/app.test.js'', ''src/components/button.test.js''],
      [''app.spec.js'', ''test.js'']),
    (''/*'',
      [''file.txt'', ''dir/'', ''script.sh'', ''src/dir/file.txt''],
      []),
    (''# This is a comment'',
      [],
      [''# This is a comment'', ''file.txt'']),
    ('''',
      [],
      [''anything'', ''file.txt'']),
    (''[!a-z].txt'',
      [''1.txt'', ''_.txt'', ''-.txt''],
      [''a.txt'', ''z.txt'', ''m.txt'']),
    (''[-a-z].txt'',
      [''-.txt'', ''a.txt'', ''m.txt'', ''z.txt''],
      [''1.txt'']),
    (''[a-z][0-9].txt'',
      [''a1.txt'', ''z9.txt'', ''m5.txt''],
      [''a.txt'', ''1.txt'', ''ab.txt'', ''12.txt'']),
    (''*'',
      [''file.txt'', ''README'', ''src/file.txt'', ''a/b/c/file.txt''],
      []),
    (''/**'',
      [''file.txt'', ''dir/'', ''dir/file.txt'', ''a/b/c/file.txt''],
      []),
    (''**logs'',
      [''logs'', ''mylogs'', ''buildlogs'', ''src/logs'', ''src/mylogs'',
       ''a/b/c/buildlogs''],
      [''log'', ''src/log'']),
    (''file***.log'',
      [''file.log'', ''fileabc.log'', ''file123.log''],
      [''file/debug.log'']),
    (''*.min.*'',
      [''app.min.js'', ''style.min.css'', ''vendor.min.map'', ''src/bundle.min.js''],
      [''app.js'', ''min.js'', ''appmin.js'']),
    (''*/'',
      [''src/'', ''build/'', ''docs/''],
      [''file.txt'', ''src'']),
    (''**/logs/**/debug.log'',
      [''logs/debug.log'', ''logs/2024/debug.log'', ''logs/2024/01/debug.log'',
       ''src/logs/debug.log'', ''src/logs/app/debug.log'',
       ''a/b/logs/x/y/debug.log''],
      [''logs/error.log'', ''debug.log'', ''src/debug.log'']),
    (([bslash] @ ''!important.txt''),
      [''!important.txt'', ''src/!important.txt''],
      [''important.txt'', ([bslash] @ ''!important.txt'')]),
    (([bslash] @ ''?file.txt''),
      [''?file.txt'', ''src/?file.txt''],
      [''afile.txt'', ''xfile.txt'']),
    (([bslash] @ ''[test'' @ [bslash] @ ''].txt''),
      [''[test].txt'', ''src/[test].txt''],
      [''test.txt'', ''t.txt'']),
    ((''my'' @ [bslash] @ '' file.txt''),
      [''my file.txt'', ''src/my file.txt''],
      [''myfile.txt'', ''my_file.txt'']),
    (''/build/'',
      [''build/''],
      [''src/build/'', ''tools/build/'', ''build'']),
    (''.*'',
      [''.gitignore'', ''.env'', ''.hidden'', ''src/.hidden'', ''a/b/.secret''],
      [''file.txt'', ''hidden'', ''src/file.txt'']),
    (''.git/'',
      [''.git/'', ''project/.git/'', ''src/.git/''],
      [''.gitignore'', ''git/'']),
    (''*.tar.gz'',
      [''archive.tar.gz'', ''backup.tar.gz'', ''src/data.tar.gz''],
      [''archive.tar'', ''archive.gz'', ''file.targz'']),
    (''file-?.*.log'',
      [''file-1.debug.log'', ''file-a.error.log'', ''file-x.app.log''],
      [''file-.debug.log'', ''file-12.debug.log'', ''file-a.log'']),
    (''src/*/test.js'',
      [''src/app/test.js'', ''src/lib/test.js'', ''src/utils/test.js''],
      [''src/test.js'', ''src/app/unit/test.js'']),
    (''src/test/fixtures'',
      [''src/test/fixtures'', ''src/test/fixtures/file.txt''],
      [''src/fixtures'', ''test/fixtures'', ''a/src/test/fixtures'']),
    (''src/**/test/'',
      [''src/test/'', ''src/lib/test/'', ''src/a/b/c/test/''],
      [''src/test'', ''test/'', ''lib/src/test/'']),
    (''file!.txt'',
      [''file!.txt'', ''src/file!.txt''],
      [''file.txt'', ''!file.txt'']),
    (''file#1.txt'',
      [''file#1.txt'', ''src/file#1.txt''],
      [''file1.txt'', ''#file1.txt'']),
    (''doc/frotz/'',
      [''doc/frotz/''],
      [''a/doc/frotz/'', ''doc/frotz'']),
    (''frotz/'',
      [''frotz/'', ''a/frotz/'', ''a/b/frotz/''],
      [''frotz'', ''frotz.txt'']),
    (''Debug[01]/'',
      [''Debug0/'', ''Debug1/''],
      [''Debug/'', ''Debug2/'', ''Debug01/'']),
    (''foo/**/*.txt'',
      [''foo/bar.txt'', ''foo/a/b/c.txt'', ''foo/x/y/z/file.txt''],
      [''foo/bar.md'', ''bar/foo/file.txt'']),
    (''**/foo'',
      [''foo'', ''a/foo'', ''a/b/c/foo''],
      [''foo.txt'', ''foobar'']),
    (''foo'',
      [''foo'', ''src/foo'', ''a/b/c/foo''],
      [''foo.txt'', ''foobar'']),
    (''/foo'',
      [''foo''],
      [''src/foo'', ''a/foo'']),
    (''foo/bar'',
      [''foo/bar''],
      [''bar'', ''foo'', ''src/foo/bar'']),
    (''/foo/bar'',
      [''foo/bar''],
      [''bar'', ''src/foo/bar''])]"

definition agrees_with_row :: "env \<Rightarrow> string \<times> string list \<times> string list \<Rightarrow> bool" where
  "agrees_with_row E row = (case row of (pattern, matching, nonMatching) \<Rightarrow>
     (case NewMatcher_git E \<lparr>Patterns_git = [pattern, []], FilePath = []\<rparr> of
        Inl e \<Rightarrow> False
      | Inr gi \<Rightarrow>
          list_all (\<lambda>p. Match_git E gi None p = Returns (True, None)) matching
          \<and> list_all (\<lambda>p. Match_git E gi None p = Returns (False, None)) nonMatching))"

section \<open>The pattern set\<close>

lemma compile_each_Inr:
  "compile_each C ps = Inr rs \<Longrightarrow> list_all2 (\<lambda>p r. C p = Inr r) ps rs"
proof (induction ps arbitrary: rs)
  case Nil
  then show ?case by simp
next
  case (Cons p ps)
  then show ?case by (auto split: sum.splits)
qed

lemma NewRE2Set_Inr:
  assumes "NewRE2Set E patterns = Inr s"
  shows "src s = patterns" and "patterns \<noteq> []"
    and "list_all2 (\<lambda>p r. regexp_Compile E p = Inr r) patterns (exprs (set_re2 s))"
    and "prior (set_re2 s) = set_prior E patterns"
proof -
  from assms obtain rs where rs: "compile_each (regexp_Compile E) patterns = Inr rs"
    and s: "s = \<lparr>src = patterns, set_re2 = \<lparr>exprs = rs, prior = set_prior E patterns\<rparr>\<rparr>"
    and ne: "patterns \<noteq> []"
    by (auto simp: NewRE2Set_def CompileSet_def split: if_splits sum.splits prod.splits)
  show "src s = patterns" by (simp add: s)
  show "patterns \<noteq> []" by (rule ne)
  show "list_all2 (\<lambda>p r. regexp_Compile E p = Inr r) patterns (exprs (set_re2 s))"
    using compile_each_Inr [OF rs] by (simp add: s)
  show "prior (set_re2 s) = set_prior E patterns" by (simp add: s)
qed

lemma NewRE2Set_length:
  "NewRE2Set E patterns = Inr s \<Longrightarrow> length (exprs (set_re2 s)) = length (src s)"
  using NewRE2Set_Inr(1,3) [of E patterns s] by (simp add: list_all2_lengthD)

lemma NewRE2Set_nth:
  assumes "NewRE2Set E patterns = Inr s" and "i < length patterns"
  shows "(exprs (set_re2 s) ! i) input = pattern_matches E (patterns ! i) input"
proof -
  have "regexp_Compile E (patterns ! i) = Inr (exprs (set_re2 s) ! i)"
    using NewRE2Set_Inr(3) [OF assms(1)] assms(2) by (simp add: list_all2_conv_all_nth)
  then show ?thesis by (simp add: pattern_matches_def)
qed

text \<open>
  The order of the set rearranges the matching indices and neither adds nor drops one.
\<close>

lemma insert_by_set: "set (insert_by before i js) = insert i (set js)"
  by (induction js) auto

lemma order_by_set: "set (order_by before js) = set js"
  unfolding order_by_def by (induction js) (simp_all add: insert_by_set)

lemma order_by_Nil: "(order_by before js = []) = (js = [])"
  using order_by_set [of before js] by (metis set_empty)

lemma FindAllString_sound:
  assumes "i \<in> set (FindAllString st s n)"
  shows "i < length (exprs st) \<and> (exprs st ! i) s"
proof -
  from assms have "i \<in> set (order_by (prior st s)
      (filter (\<lambda>i. (exprs st ! i) s) [0..<length (exprs st)]))"
    unfolding FindAllString_def by (rule in_set_takeD)
  then show ?thesis by (simp add: order_by_set)
qed

text \<open>
  \<^verbatim>\<open>Matches\<close> returns the pattern at the index that the set reports first: the text of some
  pattern that matches, when one does. Which of the matching patterns it is, is the
  choice of the set; \<^verbatim>\<open>Matches\<close> looks at no other index.
\<close>

lemma Matches_first_reported:
  "Matches s input =
     (case order_by (prior (set_re2 s) input)
             (filter (\<lambda>i. (exprs (set_re2 s) ! i) input) [0..<length (exprs (set_re2 s))]) of
        [] \<Rightarrow> (False, [])
      | i # res \<Rightarrow> (True, src s ! i))"
  by (simp add: Matches_def FindAllString_def split: list.splits)

lemma Matches_some:
  assumes "i < length (exprs (set_re2 s))" and "(exprs (set_re2 s) ! i) input"
  shows "\<exists>j<length (exprs (set_re2 s)).
           Matches s input = (True, src s ! j) \<and> (exprs (set_re2 s) ! j) input"
proof -
  let ?js = "filter (\<lambda>k. (exprs (set_re2 s) ! k) input) [0..<length (exprs (set_re2 s))]"
  have "i \<in> set ?js" using assms by simp
  then have "?js \<noteq> []" by (metis empty_iff empty_set)
  then have "FindAllString (set_re2 s) input 1 \<noteq> []"
    by (simp add: FindAllString_def order_by_Nil)
  then obtain j res where j: "FindAllString (set_re2 s) input 1 = j # res"
    by (cases "FindAllString (set_re2 s) input 1") auto
  then have "j \<in> set (FindAllString (set_re2 s) input 1)" by simp
  from FindAllString_sound [OF this]
  have "j < length (exprs (set_re2 s))" and "(exprs (set_re2 s) ! j) input" by simp_all
  moreover have "Matches s input = (True, src s ! j)" using j by (simp add: Matches_def)
  ultimately show ?thesis by blast
qed

lemma Matches_none:
  assumes "\<forall>i<length (exprs (set_re2 s)). \<not> (exprs (set_re2 s) ! i) input"
  shows "Matches s input = (False, [])"
proof -
  have "filter (\<lambda>k. (exprs (set_re2 s) ! k) input) [0..<length (exprs (set_re2 s))] = []"
    using assms by (simp add: filter_empty_conv)
  then show ?thesis by (simp add: Matches_def FindAllString_def order_by_def)
qed

text \<open>
  If the set puts index 1 before index 0 on an input that both of two patterns match,
  \<^verbatim>\<open>Matches\<close> returns the second pattern.
\<close>

lemma Matches_second_of_two:
  assumes "NewRE2Set E [p0, p1] = Inr s"
    and "pattern_matches E p0 input" and "pattern_matches E p1 input"
    and "\<not> set_prior E [p0, p1] input 0 1"
  shows "Matches s input = (True, p1)"
proof -
  have len: "length (exprs (set_re2 s)) = 2"
    using NewRE2Set_length [OF assms(1)] NewRE2Set_Inr(1) [OF assms(1)] by simp
  have e0: "(exprs (set_re2 s) ! 0) input"
    using NewRE2Set_nth [OF assms(1), of 0 input] assms(2) by simp
  have e1: "(exprs (set_re2 s) ! 1) input"
    using NewRE2Set_nth [OF assms(1), of 1 input] assms(3) by simp
  have upt: "[0..<2] = [0, 1]" by (simp add: upt_rec)
  have "filter (\<lambda>i. (exprs (set_re2 s) ! i) input) [0..<length (exprs (set_re2 s))] = [0, 1]"
    using e0 e1 by (simp add: len upt)
  then show ?thesis
    using assms(4) NewRE2Set_Inr(1,4) [OF assms(1)]
    by (simp add: Matches_first_reported order_by_def)
qed

text \<open>
  Claim C2 at a failing input. Both \<^verbatim>\<open>ab.*\<close> and \<^verbatim>\<open>a.*\<close> match \<^verbatim>\<open>abc\<close>. For the patterns
  \<^verbatim>\<open>ab.*\<close>, \<^verbatim>\<open>a.*\<close> in that order the set reports index 1 first, and \<^verbatim>\<open>Matches\<close>, which returns
  the pattern at the first reported index and compares no indices, returns \<^verbatim>\<open>a.*\<close>, the
  pattern with the higher index. For the patterns in the other order it returns \<^verbatim>\<open>a.*\<close>
  as well, there the pattern with the lowest index.
\<close>

theorem C2_higher_index_reported:
  "pattern_matches model_env ''ab.*'' ''abc'' \<and> pattern_matches model_env ''a.*'' ''abc''
   \<and> RE2Set_Matches_of model_env [''ab.*'', ''a.*''] ''abc'' = Inr (True, ''a.*'')
   \<and> RE2Set_Matches_of model_env [''a.*'', ''ab.*''] ''abc'' = Inr (True, ''a.*'')"
  by code_simp
section \<open>The regex matcher\<close>

lemma regex_loop_live:
  "regex_loop rs None path =
     (if \<exists>r\<in>set rs. r path then (regex_result path, None, None)
      else (regex_result [], None, None))"
  by (induction rs) auto

lemma regex_loop_src:
  "fst (regex_loop rs c path) = regex_result path \<or> fst (regex_loop rs c path) = regex_result []"
  by (induction rs c path rule: regex_loop.induct) (auto split: prod.splits option.splits)

lemma regex_loop_Type: "Type (fst (regex_loop rs c path)) = Regex"
  using regex_loop_src [of rs c path] by auto

lemma Match2_regex_Type: "Type (fst (Match2_regex m ctx path)) = Regex"
  by (auto simp: Match2_regex_def regex_loop_Type split: prod.splits option.splits bool.splits)

lemma NewMatcher_regex_sequential:
  assumes "NewMatcher_regex E opts = Inr m" and "\<not> Parallel_regex opts"
  shows "set_regex m = None"
    and "list_all2 (\<lambda>p r. regexp_Compile E p = Inr r) (regex_patterns opts) (regexps m)"
proof -
  from assms obtain rs where rs: "compile_each (regexp_Compile E) (regex_patterns opts) = Inr rs"
    and m: "m = \<lparr>regexps = rs, set_regex = None\<rparr>"
    by (auto simp: NewMatcher_regex_def regex_patterns_def Let_def
             split: if_splits sum.splits prod.splits)
  show "set_regex m = None" by (simp add: m)
  show "list_all2 (\<lambda>p r. regexp_Compile E p = Inr r) (regex_patterns opts) (regexps m)"
    using compile_each_Inr [OF rs] by (simp add: m)
qed

lemma NewMatcher_regex_parallel:
  assumes "NewMatcher_regex E opts = Inr m" and "Parallel_regex opts"
  shows "\<exists>s. set_regex m = Some s \<and> NewRE2Set E (regex_patterns opts) = Inr s"
  using assms
  by (auto simp: NewMatcher_regex_def regex_patterns_def Let_def
           split: if_splits sum.splits prod.splits)

lemma some_pattern_matches:
  assumes "list_all2 (\<lambda>p r. regexp_Compile E p = Inr r) ps rs"
  shows "(\<exists>r\<in>set rs. r path) = (\<exists>p\<in>set ps. pattern_matches E p path)"
  using assms
  by (induction ps rs rule: list_all2_induct) (auto simp: pattern_matches_def)

text \<open>
  What the two branches of \<^verbatim>\<open>Match2\<close> return on a path that some compiled pattern matches,
  under a live context: the sequential branch returns the input path as the source, the
  set branch returns the text of a compiled pattern that matches the path (in literal mode
  the compiled pattern is the one alternation of the quoted patterns).
\<close>

lemma Match2_regex_source:
  assumes "NewMatcher_regex E opts = Inr m"
    and ex: "\<exists>p\<in>set (regex_patterns opts). pattern_matches E p path"
  shows "\<not> Parallel_regex opts \<Longrightarrow> Match2_regex m None path = (regex_result path, None, None)"
    and "Parallel_regex opts \<Longrightarrow>
         \<exists>p\<in>set (regex_patterns opts). pattern_matches E p path
            \<and> Match2_regex m None path = (regex_result p, None, None)"
proof -
  assume seq: "\<not> Parallel_regex opts"
  from NewMatcher_regex_sequential [OF assms(1) seq]
  have none: "set_regex m = None"
    and all2: "list_all2 (\<lambda>p r. regexp_Compile E p = Inr r) (regex_patterns opts) (regexps m)"
    by simp_all
  have "\<exists>r\<in>set (regexps m). r path" using some_pattern_matches [OF all2] ex by simp
  then show "Match2_regex m None path = (regex_result path, None, None)"
    by (simp add: Match2_regex_def none regex_loop_live)
next
  assume par: "Parallel_regex opts"
  from NewMatcher_regex_parallel [OF assms(1) par] obtain s
    where s: "set_regex m = Some s" "NewRE2Set E (regex_patterns opts) = Inr s" by blast
  from ex obtain i where i: "i < length (regex_patterns opts)"
    "pattern_matches E (regex_patterns opts ! i) path"
    by (auto simp: in_set_conv_nth)
  have len: "length (exprs (set_re2 s)) = length (regex_patterns opts)"
    using NewRE2Set_length [OF s(2)] NewRE2Set_Inr(1) [OF s(2)] by simp
  have "i < length (exprs (set_re2 s))" and "(exprs (set_re2 s) ! i) path"
    using i len NewRE2Set_nth [OF s(2) i(1)] by simp_all
  from Matches_some [OF this] obtain j where j: "j < length (exprs (set_re2 s))"
    "Matches s path = (True, src s ! j)" "(exprs (set_re2 s) ! j) path" by blast
  have jl: "j < length (regex_patterns opts)" using j(1) len by simp
  have pj: "pattern_matches E (regex_patterns opts ! j) path"
    using j(3) NewRE2Set_nth [OF s(2) jl] by simp
  have "Match2_regex m None path = (regex_result (regex_patterns opts ! j), None, None)"
    using j(2) NewRE2Set_Inr(1) [OF s(2)] by (simp add: Match2_regex_def s(1))
  with pj jl show "\<exists>p\<in>set (regex_patterns opts). pattern_matches E p path
      \<and> Match2_regex m None path = (regex_result p, None, None)"
    by (meson nth_mem)
qed

text \<open>
  Claim C5 at failing inputs. The pattern \<^verbatim>\<open>a.*\<close> matches the path \<^verbatim>\<open>abc\<close>. The matcher
  constructed sequentially returns the source \<^verbatim>\<open>abc\<close>, the input path; the matcher
  constructed in parallel returns the source \<^verbatim>\<open>a.*\<close>, the text of the pattern. The empty
  pattern matches \<^verbatim>\<open>abc\<close> too: the sequential matcher returns the source \<^verbatim>\<open>abc\<close> and \<^verbatim>\<open>Match\<close>
  returns true, the parallel matcher returns the empty source, the text of the pattern,
  and \<^verbatim>\<open>Match\<close> returns false. The dialect tag is regex in every case (lemma
  \<open>Match2_regex_Type\<close>).
\<close>

theorem C5_parallel_source_is_pattern_text:
  "pattern_matches model_env ''a.*'' ''abc'' \<and> pattern_matches model_env [] ''abc''
   \<and> regex_Match2_of model_env
        \<lparr>Patterns_regex = [''a.*''], Parallel_regex = False, Literals = False\<rparr> None ''abc''
      = Inr (regex_result ''abc'', None, None)
   \<and> regex_Match2_of model_env
        \<lparr>Patterns_regex = [''a.*''], Parallel_regex = True, Literals = False\<rparr> None ''abc''
      = Inr (regex_result ''a.*'', None, None)
   \<and> regex_Match2_of model_env
        \<lparr>Patterns_regex = [[]], Parallel_regex = False, Literals = False\<rparr> None ''abc''
      = Inr (regex_result ''abc'', None, None)
   \<and> regex_Match2_of model_env
        \<lparr>Patterns_regex = [[]], Parallel_regex = True, Literals = False\<rparr> None ''abc''
      = Inr (regex_result [], None, None)
   \<and> regex_Match_of model_env
        \<lparr>Patterns_regex = [[]], Parallel_regex = False, Literals = False\<rparr> None ''abc''
      = Inr (True, None)
   \<and> regex_Match_of model_env
        \<lparr>Patterns_regex = [[]], Parallel_regex = True, Literals = False\<rparr> None ''abc''
      = Inr (False, None)"
  by code_simp
section \<open>Glob construction\<close>

lemma compiled_ok_simps:
  "compiled_ok C q [] = []"
  "compiled_ok C q (p # ps) = (case C (q p) of Inl e \<Rightarrow> [] | Inr g \<Rightarrow> [g]) @ compiled_ok C q ps"
  by (simp_all add: compiled_ok_def)

lemma compile_errors_simps:
  "compile_errors C q [] = []"
  "compile_errors C q (p # ps) =
     (case C (q p) of Inl e \<Rightarrow> [CompileError e p] | Inr g \<Rightarrow> []) @ compile_errors C q ps"
  by (simp_all add: compile_errors_def)

lemma lenient_loop_eq:
  "lenient_loop C q ps (gs, errs) = (gs @ compiled_ok C q ps, errs @ compile_errors C q ps)"
proof (induction ps arbitrary: gs errs)
  case Nil
  show ?case by (simp add: compiled_ok_simps compile_errors_simps)
next
  case (Cons p ps)
  show ?case
    by (cases "C (q p)") (simp_all add: Cons.IH compiled_ok_simps compile_errors_simps)
qed

lemma strict_loop_eq:
  "strict_loop C q ps gs =
     (case compile_errors C q ps of [] \<Rightarrow> Inr (gs @ compiled_ok C q ps) | e # es \<Rightarrow> Inl e)"
proof (induction ps arbitrary: gs)
  case Nil
  show ?case by (simp add: compiled_ok_simps compile_errors_simps)
next
  case (Cons p ps)
  show ?case
    by (cases "C (q p)")
       (simp_all add: Cons.IH compiled_ok_simps compile_errors_simps split: list.splits)
qed

lemma compiled_ok_or_error:
  "length (compiled_ok C q ps) + length (compile_errors C q ps) = length ps"
  by (induction ps) (auto simp: compiled_ok_simps compile_errors_simps split: sum.splits)

text \<open>
  Claim C9. Lenient construction returns a matcher holding exactly the globs that
  compiled, patterns first and quoted raw patterns after them, in their order, together
  with one \<open>CompileError\<close> naming the pattern text for each pattern that failed. Strict
  construction returns the first of those errors and no matcher, and when there is none,
  the matcher with every pattern compiled. Each pattern counts once, as compiled or as
  an error.
\<close>

theorem C9_glob_construction:
  "NewMatcher_glob E opts =
     (\<lparr>globs = compiled_ok (glob_Compile E) id (Patterns_glob opts)
               @ compiled_ok (glob_Compile E) (glob_QuoteMeta E) (RawPatterns opts),
       parallel = False\<rparr>,
      compile_errors (glob_Compile E) id (Patterns_glob opts)
        @ compile_errors (glob_Compile E) (glob_QuoteMeta E) (RawPatterns opts))
   \<and> newStrictMatcher E opts llel =
     (case compile_errors (glob_Compile E) id (Patterns_glob opts)
             @ compile_errors (glob_Compile E) (glob_QuoteMeta E) (RawPatterns opts) of
        e # es \<Rightarrow> Inl e
      | [] \<Rightarrow>
          Inr \<lparr>globs = compiled_ok (glob_Compile E) id (Patterns_glob opts)
                   @ compiled_ok (glob_Compile E) (glob_QuoteMeta E) (RawPatterns opts),
               parallel = llel\<rparr>)
   \<and> length (compiled_ok (glob_Compile E) id (Patterns_glob opts)
               @ compiled_ok (glob_Compile E) (glob_QuoteMeta E) (RawPatterns opts))
       + length (compile_errors (glob_Compile E) id (Patterns_glob opts)
               @ compile_errors (glob_Compile E) (glob_QuoteMeta E) (RawPatterns opts))
       = length (Patterns_glob opts) + length (RawPatterns opts)"
proof (intro conjI)
  show "NewMatcher_glob E opts =
     (\<lparr>globs = compiled_ok (glob_Compile E) id (Patterns_glob opts)
               @ compiled_ok (glob_Compile E) (glob_QuoteMeta E) (RawPatterns opts),
       parallel = False\<rparr>,
      compile_errors (glob_Compile E) id (Patterns_glob opts)
        @ compile_errors (glob_Compile E) (glob_QuoteMeta E) (RawPatterns opts))"
    by (simp add: NewMatcher_glob_def lenient_loop_eq)
next
  show "newStrictMatcher E opts llel =
     (case compile_errors (glob_Compile E) id (Patterns_glob opts)
             @ compile_errors (glob_Compile E) (glob_QuoteMeta E) (RawPatterns opts) of
        e # es \<Rightarrow> Inl e
      | [] \<Rightarrow>
          Inr \<lparr>globs = compiled_ok (glob_Compile E) id (Patterns_glob opts)
                   @ compiled_ok (glob_Compile E) (glob_QuoteMeta E) (RawPatterns opts),
               parallel = llel\<rparr>)"
    by (simp add: newStrictMatcher_def strict_loop_eq split: list.splits)
next
  show "length (compiled_ok (glob_Compile E) id (Patterns_glob opts)
               @ compiled_ok (glob_Compile E) (glob_QuoteMeta E) (RawPatterns opts))
       + length (compile_errors (glob_Compile E) id (Patterns_glob opts)
               @ compile_errors (glob_Compile E) (glob_QuoteMeta E) (RawPatterns opts))
       = length (Patterns_glob opts) + length (RawPatterns opts)"
    using compiled_ok_or_error [of "glob_Compile E" id "Patterns_glob opts"]
          compiled_ok_or_error [of "glob_Compile E" "glob_QuoteMeta E" "RawPatterns opts"]
    by simp
qed

section \<open>The glob matcher\<close>

lemma glob_loop_src:
  "fst (glob_loop gs c path) = glob_result path \<or> fst (glob_loop gs c path) = glob_result []"
  by (induction gs c path rule: glob_loop.induct) (auto split: prod.splits option.splits)

subsection \<open>Safety of the race\<close>

lemma race_init_inv: "race_inv path (race_init n)"
  by (simp add: race_inv_def race_init_def)

lemma race_step_inv: "race_inv path st \<Longrightarrow> race_inv path (race_step gs path ev st)"
  by (cases ev)
     (auto simp: race_inv_def race_step_def run_worker_def split: wpc.splits option.splits)

lemma race_fold_inv:
  "race_inv path st \<Longrightarrow> race_inv path (fold (race_step gs path) sched st)"
  by (induction sched arbitrary: st) (simp_all add: race_step_inv)

lemma concurrentMatch_result:
  assumes "concurrentMatch m path sched = Returns ((p, err), d)"
  shows "err = None \<and> (p = path \<or> p = [])"
proof -
  have "race_inv path (race_run (globs m) path sched)"
    unfolding race_run_def by (rule race_fold_inv [OF race_init_inv])
  moreover have "ret (race_run (globs m) path sched) = Some (p, err)"
    using assms by (auto simp: concurrentMatch_def Let_def split: option.splits)
  ultimately show ?thesis by (auto simp: race_inv_def)
qed

lemma concurrentMatch_not_Panics: "concurrentMatch m path sched \<noteq> Panics"
  by (simp add: concurrentMatch_def Let_def split: option.splits)

subsection \<open>The race returns\<close>

lemma race_step_length [simp]:
  "length (workers (race_step gs path ev st)) = length (workers st)"
  by (cases ev) (auto simp: race_step_def run_worker_def split: wpc.splits option.splits)

lemma race_fold_length [simp]:
  "length (workers (fold (race_step gs path) sched st)) = length (workers st)"
  by (induction sched arbitrary: st) simp_all

lemma race_step_settled: "settled st \<Longrightarrow> settled (race_step gs path ev st)"
  by (cases ev)
     (auto simp: settled_def race_step_def run_worker_def split: wpc.splits option.splits)

lemma race_step_Finished:
  "workers st ! i = Finished \<Longrightarrow> workers (race_step gs path ev st) ! i = Finished"
  by (cases ev)
     (auto simp: race_step_def run_worker_def nth_list_update split: wpc.splits option.splits)

lemma race_fold_settled:
  "settled st \<Longrightarrow> settled (fold (race_step gs path) sched st)"
  by (induction sched arbitrary: st) (simp_all add: race_step_settled)

lemma race_fold_Finished:
  "workers st ! i = Finished \<Longrightarrow> workers (fold (race_step gs path) sched st) ! i = Finished"
  by (induction sched arbitrary: st) (simp_all add: race_step_Finished)

lemma run_once:
  assumes "k < length (workers st)" and "k < length gs"
  shows "settled (race_step gs path (Run k) st)
       \<or> workers (race_step gs path (Run k) st) ! k = Finished
       \<or> workers (race_step gs path (Run k) st) ! k = AtSelect"
  using assms
  by (cases "workers st ! k")
     (auto simp: settled_def race_step_def run_worker_def)

lemma run_at_select:
  assumes "k < length (workers st)" and "k < length gs" and "workers st ! k = AtSelect"
  shows "settled (race_step gs path (Run k) st)"
  using assms by (auto simp: settled_def race_step_def run_worker_def)

lemma run_thrice:
  assumes "k < length (workers st)" and "k < length gs"
  shows "settled (fold (race_step gs path) [Run k, Run k, Run k] st)
       \<or> workers (fold (race_step gs path) [Run k, Run k, Run k] st) ! k = Finished"
proof -
  let ?s1 = "race_step gs path (Run k) st"
  let ?s2 = "race_step gs path (Run k) ?s1"
  let ?s3 = "race_step gs path (Run k) ?s2"
  have k1: "k < length (workers ?s1)" using assms(1) by simp
  have "settled ?s2 \<or> workers ?s2 ! k = Finished"
    using run_once [OF assms, of path] run_at_select [OF k1 assms(2), of path]
      race_step_settled [of ?s1 gs path "Run k"] race_step_Finished [of ?s1 k gs path "Run k"]
    by blast
  then have "settled ?s3 \<or> workers ?s3 ! k = Finished"
    using race_step_settled [of ?s2 gs path "Run k"] race_step_Finished [of ?s2 k gs path "Run k"]
    by blast
  then show ?thesis by simp
qed

lemma runs_Suc: "runs (Suc n) = runs n @ [Run n, Run n, Run n]"
  by (simp add: runs_def)

lemma runs_finish:
  assumes "length (workers st) = length gs" and "n \<le> length gs"
  shows "settled (fold (race_step gs path) (runs n) st)
       \<or> (\<forall>i<n. workers (fold (race_step gs path) (runs n) st) ! i = Finished)"
  using assms(2)
proof (induction n)
  case 0
  then show ?case by simp
next
  case (Suc n)
  let ?st = "fold (race_step gs path) (runs n) st"
  let ?st' = "fold (race_step gs path) [Run n, Run n, Run n] ?st"
  have eq: "fold (race_step gs path) (runs (Suc n)) st = ?st'"
    by (simp add: runs_Suc)
  have n: "n < length (workers ?st)" "n < length gs"
    using Suc.prems assms(1) by simp_all
  have ih: "settled ?st \<or> (\<forall>i<n. workers ?st ! i = Finished)"
    using Suc.IH Suc.prems by simp
  have new: "settled ?st' \<or> workers ?st' ! n = Finished"
    by (rule run_thrice [OF n])
  have "settled ?st' \<or> (\<forall>i<Suc n. workers ?st' ! i = Finished)"
  proof (cases "settled ?st'")
    case True
    then show ?thesis by simp
  next
    case False
    then have ns: "\<not> settled ?st" using race_fold_settled by blast
    have "workers ?st' ! i = Finished" if "i < Suc n" for i
    proof (cases "i = n")
      case True
      then show ?thesis using new False by simp
    next
      case False
      then have "i < n" using that by simp
      then have "workers ?st ! i = Finished" using ih ns by simp
      then show ?thesis by (rule race_fold_Finished)
    qed
    then show ?thesis by simp
  qed
  then show ?case by (simp only: eq)
qed

lemma drain_returns:
  assumes "length (workers st) = length gs"
  shows "ret (fold (race_step gs path) (drain (length gs)) st) \<noteq> None"
proof -
  let ?st = "fold (race_step gs path) (runs (length gs)) st"
  have fin: "settled ?st \<or> (\<forall>i<length gs. workers ?st ! i = Finished)"
    by (rule runs_finish [OF assms order_refl])
  have len: "length (workers ?st) = length gs" using assms by simp
  have last: "ret (race_step gs path MainRecv (race_step gs path Closer ?st)) \<noteq> None"
  proof (cases "settled ?st")
    case True
    then have "settled (race_step gs path Closer ?st)" by (rule race_step_settled)
    then show ?thesis by (auto simp: settled_def race_step_def)
  next
    case False
    then have "\<forall>i<length (workers ?st). workers ?st ! i = Finished" using fin len by simp
    then have "list_all (\<lambda>w. w = Finished) (workers ?st)"
      by (simp add: list_all_length)
    then show ?thesis using False by (auto simp: settled_def race_step_def split: option.splits)
  qed
  have "fold (race_step gs path) (drain (length gs)) st
      = race_step gs path MainRecv (race_step gs path Closer ?st)"
    by (simp add: drain_def runs_def)
  then show ?thesis using last by simp
qed

lemma concurrentMatch_returns:
  "\<exists>r d. concurrentMatch m path (sched @ drain (length (globs m))) = Returns (r, d)"
proof -
  let ?st = "fold (race_step (globs m) path) sched (race_init (length (globs m)))"
  have "length (workers ?st) = length (globs m)" by (simp add: race_init_def)
  from drain_returns [OF this, of path]
  have "ret (race_run (globs m) path (sched @ drain (length (globs m)))) \<noteq> None"
    by (simp add: race_run_def)
  then show ?thesis by (auto simp: concurrentMatch_def Let_def split: option.splits)
qed

subsection \<open>What \<^verbatim>\<open>Match2\<close> of the glob matcher returns\<close>

lemma Match2_glob_src:
  assumes "Match2_glob g ctx sched path = Returns (res, err, c)"
  shows "res = NoMatch \<or> res = glob_result path \<or> res = glob_result []"
proof (cases "poll ctx")
  case (Pair e c0)
  show ?thesis
  proof (cases e)
    case (Some x)
    then show ?thesis using assms Pair by (simp add: Match2_glob_def)
  next
    case None
    show ?thesis
    proof (cases "parallel g")
      case False
      then have "res = fst (glob_loop (globs g) c0 path)"
        using assms Pair None by (auto simp: Match2_glob_def)
      then show ?thesis using glob_loop_src [of "globs g" c0 path] by auto
    next
      case True
      then obtain p e' d where cm: "concurrentMatch g path sched = Returns ((p, e'), d)"
        using assms Pair None
        by (auto simp: Match2_glob_def split: outcome.splits prod.splits option.splits)
      from concurrentMatch_result [OF cm] have "e' = None" "p = path \<or> p = []" by simp_all
      then show ?thesis using assms Pair None True cm by (auto simp: Match2_glob_def)
    qed
  qed
qed

lemma Match2_glob_not_Panics: "Match2_glob g ctx sched path \<noteq> Panics"
  using concurrentMatch_not_Panics [of g path sched]
  by (auto simp: Match2_glob_def split: prod.splits option.splits outcome.splits)

lemma Match2_glob_returns:
  "\<exists>r. Match2_glob g ctx (sched @ drain (length (globs g))) path = Returns r"
proof -
  obtain e c where p: "poll ctx = (e, c)" by (cases "poll ctx")
  show ?thesis
  proof (cases "parallel g")
    case False
    then show ?thesis by (cases e) (simp_all add: Match2_glob_def p, metis prod_cases3)
  next
    case True
    from concurrentMatch_returns [of g path sched] obtain q e' d
      where "concurrentMatch g path (sched @ drain (length (globs g))) = Returns ((q, e'), d)"
      by (metis prod.exhaust)
    then show ?thesis by (cases e; cases e') (simp_all add: Match2_glob_def p True)
  qed
qed

lemma Match2_glob_sequential_returns:
  assumes "\<not> parallel g"
  shows "\<exists>r. Match2_glob g ctx sched path = Returns r"
proof -
  obtain e c where p: "poll ctx = (e, c)" by (cases "poll ctx")
  show ?thesis using assms by (cases e) (simp_all add: Match2_glob_def p, metis prod_cases3)
qed

text \<open>
  Claim C10. In the regex matcher constructed sequentially and in the glob matcher in both
  modes, a result that is a match has the input path as its source, so that the empty
  path is never reported as matched: \<open>Match\<close> returns false for it, whatever the patterns
  and the context are. In the parallel mode of the glob matcher this holds for every
  schedule under which the call returns, and the call returns under every schedule that is
  continued by letting each goroutine run.
\<close>

theorem C10_empty_path_never_matches:
  "(set_regex m = None \<longrightarrow>
      (Ok (fst (Match2_regex m ctx path)) \<longrightarrow> Src (fst (Match2_regex m ctx path)) = path)
      \<and> fst (Match_regex m ctx []) = False)
   \<and> (\<forall>res err c. Match2_glob g ctx sched path = Returns (res, err, c) \<longrightarrow> Ok res \<longrightarrow>
         Src res = path)
   \<and> (\<forall>b err. Match_glob g ctx sched [] = Returns (b, err) \<longrightarrow> b = False)
   \<and> (\<not> parallel g \<longrightarrow> (\<exists>err. Match_glob g ctx sched [] = Returns (False, err)))
   \<and> (\<exists>err. Match_glob g ctx (sched @ drain (length (globs g))) [] = Returns (False, err))"
proof (intro conjI impI allI)
  assume seq: "set_regex m = None"
  have src: "fst (Match2_regex m ctx p) = regex_result p \<or> fst (Match2_regex m ctx p) = regex_result []"
    for p
    using regex_loop_src [of "regexps m" _ p]
    by (auto simp: Match2_regex_def seq split: prod.splits option.splits)
  show "Src (fst (Match2_regex m ctx path)) = path" if "Ok (fst (Match2_regex m ctx path))"
    using src [of path] that by auto
  show "fst (Match_regex m ctx []) = False"
    using src [of "[]"] by (auto simp: Match_regex_def split: prod.splits)
next
  fix res err c
  assume "Match2_glob g ctx sched path = Returns (res, err, c)" and "Ok res"
  then show "Src res = path" using Match2_glob_src by (fastforce simp: NoMatch_def)
next
  fix b err
  assume "Match_glob g ctx sched [] = Returns (b, err)"
  then obtain res c where "Match2_glob g ctx sched [] = Returns (res, err, c)" "b = Ok res"
    by (auto simp: Match_glob_def split: outcome.splits prod.splits)
  then show "b = False" using Match2_glob_src by (fastforce simp: NoMatch_def)
next
  assume "\<not> parallel g"
  from Match2_glob_sequential_returns [OF this, of ctx sched "[]"]
  obtain res err c where r: "Match2_glob g ctx sched [] = Returns (res, err, c)"
    by (metis prod_cases3)
  then have "\<not> Ok res" using Match2_glob_src by (fastforce simp: NoMatch_def)
  then show "\<exists>err. Match_glob g ctx sched [] = Returns (False, err)"
    using r by (simp add: Match_glob_def)
next
  from Match2_glob_returns [of g ctx sched "[]"]
  obtain res err c where r:
    "Match2_glob g ctx (sched @ drain (length (globs g))) [] = Returns (res, err, c)"
    by (metis prod_cases3)
  then have "\<not> Ok res" using Match2_glob_src by (fastforce simp: NoMatch_def)
  then show "\<exists>err. Match_glob g ctx (sched @ drain (length (globs g))) [] = Returns (False, err)"
    using r by (simp add: Match_glob_def)
qed

theorem C10_empty_path_never_matches_witness:
  "(\<exists>m. NewMatcher_regex model_env
            \<lparr>Patterns_regex = [''.*''], Parallel_regex = False, Literals = False\<rparr> = Inr m
        \<and> set_regex m = None \<and> (\<exists>r\<in>set (regexps m). r [])
        \<and> fst (Match_regex m None []) = False)
   \<and> (\<exists>g err. NewStrictMatcher model_env \<lparr>Patterns_glob = [''*''], RawPatterns = []\<rparr> = Inr g
        \<and> \<not> parallel g \<and> (\<exists>r\<in>set (globs g). r [])
        \<and> Match_glob g None [] [] = Returns (False, err))
   \<and> (\<exists>g err. NewStrictParallelMatcher model_env \<lparr>Patterns_glob = [''*''], RawPatterns = []\<rparr> = Inr g
        \<and> parallel g \<and> (\<exists>r\<in>set (globs g). r [])
        \<and> Match_glob g None ([Run 0] @ drain (length (globs g))) [] = Returns (False, err))"
proof -
  let ?ro = "\<lparr>Patterns_regex = [''.*''], Parallel_regex = False, Literals = False\<rparr>"
  let ?go = "\<lparr>Patterns_glob = [''*''], RawPatterns = []\<rparr>"
  have "case NewMatcher_regex model_env ?ro of
          Inl e \<Rightarrow> False
        | Inr m \<Rightarrow> (case set_regex m of None \<Rightarrow> True | Some s \<Rightarrow> False) \<and> list_ex (\<lambda>r. r []) (regexps m)"
    by code_simp
  then obtain m where m: "NewMatcher_regex model_env ?ro = Inr m" "set_regex m = None"
    "\<exists>r\<in>set (regexps m). r []"
    by (auto simp: list_ex_iff split: sum.splits option.splits)
  have "case NewStrictMatcher model_env ?go of
          Inl e \<Rightarrow> False | Inr g \<Rightarrow> \<not> parallel g \<and> list_ex (\<lambda>r. r []) (globs g)"
    by code_simp
  then obtain g1 where g1: "NewStrictMatcher model_env ?go = Inr g1" "\<not> parallel g1"
    "\<exists>r\<in>set (globs g1). r []"
    by (auto simp: list_ex_iff split: sum.splits)
  have "case NewStrictParallelMatcher model_env ?go of
          Inl e \<Rightarrow> False | Inr g \<Rightarrow> parallel g \<and> list_ex (\<lambda>r. r []) (globs g)"
    by code_simp
  then obtain g2 where g2: "NewStrictParallelMatcher model_env ?go = Inr g2" "parallel g2"
    "\<exists>r\<in>set (globs g2). r []"
    by (auto simp: list_ex_iff split: sum.splits)
  have a: "fst (Match_regex m None []) = False"
    using C10_empty_path_never_matches [of m None "[]" g1 "[]"] m(2) by simp
  have b: "\<exists>err. Match_glob g1 None [] [] = Returns (False, err)"
    using C10_empty_path_never_matches [of m None "[]" g1 "[]"] g1(2) by simp
  have c: "\<exists>err. Match_glob g2 None ([Run 0] @ drain (length (globs g2))) [] = Returns (False, err)"
    using C10_empty_path_never_matches [of m None "[]" g2 "[Run 0]"] by simp
  show ?thesis using m g1 g2 a b c by blast
qed

subsection \<open>Cancellation in the sequential loops\<close>

text \<open>
  The sequential loops observe the context before each pattern test: a context that is
  cancelled after \<open>n\<close> observations, with none of the first \<open>n\<close> patterns matching and at
  least one more pattern to test, gives the error.
\<close>

lemma regex_loop_cancelled:
  assumes "n < length rs" and "\<forall>i<n. \<not> (rs ! i) path"
  shows "regex_loop rs (Some n) path = (regex_result [], Some Canceled, Some 0)"
  using assms
proof (induction rs arbitrary: n)
  case Nil
  then show ?case by simp
next
  case (Cons r rs)
  show ?case
  proof (cases n)
    case 0
    then show ?thesis by simp
  next
    case (Suc k)
    have "\<not> r path" using Cons.prems(2) Suc by auto
    moreover have "k < length rs" using Cons.prems(1) Suc by simp
    moreover have "\<forall>i<k. \<not> (rs ! i) path" using Cons.prems(2) Suc by auto
    ultimately show ?thesis using Cons.IH [of k] Suc by simp
  qed
qed

lemma glob_loop_cancelled:
  assumes "n < length gs" and "\<forall>i<n. \<not> (gs ! i) path"
  shows "glob_loop gs (Some n) path = (glob_result [], Some Canceled, Some 0)"
  using assms
proof (induction gs arbitrary: n)
  case Nil
  then show ?case by simp
next
  case (Cons g gs)
  show ?case
  proof (cases n)
    case 0
    then show ?thesis by simp
  next
    case (Suc k)
    have "\<not> g path" using Cons.prems(2) Suc by auto
    moreover have "k < length gs" using Cons.prems(1) Suc by simp
    moreover have "\<forall>i<k. \<not> (gs ! i) path" using Cons.prems(2) Suc by auto
    ultimately show ?thesis using Cons.IH [of k] Suc by simp
  qed
qed

subsection \<open>Cancellation during the race\<close>

lemma Match2_glob_parallel_no_error:
  assumes "parallel g" and "poll ctx = (None, c)"
    and "Match2_glob g ctx sched path = Returns (res, err, c')"
  shows "err = None"
proof -
  from assms obtain p e d where cm: "concurrentMatch g path sched = Returns ((p, e), d)"
    by (auto simp: Match2_glob_def split: outcome.splits prod.splits option.splits)
  from concurrentMatch_result [OF cm] have "e = None" by simp
  then show ?thesis using assms cm by (auto simp: Match2_glob_def)
qed

text \<open>
  Claim C3 at a failing input. The glob \<^verbatim>\<open>*.md\<close> matches \<^verbatim>\<open>document.md\<close>, as the sequential
  matcher reports. The matcher in concurrent mode is called with a context that is live
  at the entry check; the context is then cancelled while the race is in flight and the
  caller's \<^verbatim>\<open>select\<close> takes the \<^verbatim>\<open>matchCtx.Done()\<close> case: \<open>Match\<close> returns false and no error.
\<close>

theorem C3_cancelled_race_returns_no_match:
  "glob_Match_of model_env \<lparr>Patterns_glob = [''*.md''], RawPatterns = []\<rparr> False
      None [] ''document.md'' = Inr (Returns (True, None))
   \<and> glob_Match_of model_env \<lparr>Patterns_glob = [''*.md''], RawPatterns = []\<rparr> True
      (Some 1) [Cancel, MainDone] ''document.md'' = Inr (Returns (False, None))"
  by code_simp

section \<open>The gitignore translator\<close>

lemma TrimRight_keep:
  "c \<notin> set cutset \<Longrightarrow> TrimRight (xs @ c # s) cutset = xs @ c # TrimRight s cutset"
  by (simp add: TrimRight_def dropWhile_append3)

lemma TrimRight_Cons_keep:
  "c \<notin> set cutset \<Longrightarrow> TrimRight (c # s) cutset = c # TrimRight s cutset"
  using TrimRight_keep [of c cutset "[]" s] by simp

lemma TrimRight_all: "set s \<subseteq> set cutset \<Longrightarrow> TrimRight s cutset = []"
  by (auto simp: TrimRight_def dropWhile_eq_Nil_conv)

lemma TrimRight_append_all:
  "set t \<subseteq> set cutset \<Longrightarrow> TrimRight (s @ t) cutset = TrimRight s cutset"
  by (auto simp: TrimRight_def dropWhile_append1 dropWhile_append dropWhile_eq_Nil_conv)

lemma TrimRight_none: "set s \<inter> set cutset = {} \<Longrightarrow> TrimRight s cutset = s"
proof (induction s)
  case Nil
  then show ?case by (simp add: TrimRight_def)
next
  case (Cons c s)
  then show ?case by (simp add: TrimRight_Cons_keep)
qed

lemma parse_comment: "parse (CHR ''#'' # rest) = None"
  by (simp add: parse_def TrimRight_Cons_keep HasPrefix_def)

lemma parse_blank: "parse (replicate n (CHR '' '') @ replicate k (CHR 0x0D)) = None"
proof -
  have "TrimRight (replicate n (CHR '' '') @ replicate k (CHR 0x0D)) [CHR 0x0D]
      = TrimRight (replicate n (CHR '' '')) [CHR 0x0D]"
    by (rule TrimRight_append_all) auto
  also have "\<dots> = replicate n (CHR '' '')"
    by (rule TrimRight_none) auto
  finally have 1: "TrimRight (replicate n (CHR '' '') @ replicate k (CHR 0x0D)) [CHR 0x0D]
      = replicate n (CHR '' '')" .
  have 2: "Trim (replicate n (CHR '' '')) '' '' = []"
    by (simp add: Trim_def TrimLeft_def TrimRight_def dropWhile_eq_Nil_conv)
  show ?thesis by (simp add: parse_def 1 2)
qed

lemma parse_escaped_hash: "parse (bslash # CHR ''#'' # rest) \<noteq> None"
proof -
  have b: "bslash \<noteq> CHR 0x0D" "bslash \<noteq> CHR '' ''" "bslash \<noteq> CHR ''#''"
    by (simp_all add: bslash_def)
  have 1: "TrimRight (bslash # CHR ''#'' # rest) [CHR 0x0D]
      = bslash # TrimRight (CHR ''#'' # rest) [CHR 0x0D]"
    using b by (simp add: TrimRight_Cons_keep)
  have 2: "Trim (bslash # s) '' '' \<noteq> []" for s
    using b by (simp add: Trim_def TrimLeft_def TrimRight_Cons_keep)
  have 3: "\<not> HasPrefix (bslash # s) ''#''" for s
    using b by (simp add: HasPrefix_def)
  show ?thesis unfolding parse_def 1 using 2 3 by simp
qed

lemma parse_indented_hash: "parse (replicate (Suc n) (CHR '' '') @ CHR ''#'' # rest) \<noteq> None"
proof -
  let ?sp = "replicate (Suc n) (CHR '' '')"
  have 1: "TrimRight (?sp @ CHR ''#'' # rest) [CHR 0x0D] = ?sp @ CHR ''#'' # TrimRight rest [CHR 0x0D]"
    by (rule TrimRight_keep) simp
  have "dropWhile (\<lambda>c. c \<in> set '' '') (?sp @ CHR ''#'' # s) = dropWhile (\<lambda>c. c \<in> set '' '') (CHR ''#'' # s)"
    for s
    by (rule dropWhile_append2) auto
  then have 2: "TrimLeft (?sp @ CHR ''#'' # s) '' '' = CHR ''#'' # s" for s
    by (simp add: TrimLeft_def del: replicate_Suc)
  have 3: "Trim (?sp @ CHR ''#'' # s) '' '' \<noteq> []" for s
    unfolding Trim_def 2 by (simp add: TrimRight_Cons_keep)
  have 4: "\<not> HasPrefix (?sp @ CHR ''#'' # s) ''#''" for s
    by (simp add: HasPrefix_def)
  show ?thesis unfolding parse_def 1 using 3 4 by simp
qed

lemma escaped_hash_is_literal:
  "git_Match_of model_env \<lparr>Patterns_git = [bslash # ''#file.txt''], FilePath = []\<rparr> False None
      ''#file.txt'' = Inr (Returns (True, None))
   \<and> git_Match_of model_env \<lparr>Patterns_git = [bslash # ''#file.txt''], FilePath = []\<rparr> False None
      ''file.txt'' = Inr (Returns (False, None))"
  by code_simp

text \<open>
  Claim C8, amended. A line produces no rule exactly when, after its trailing carriage
  returns are stripped, it begins with \<^verbatim>\<open>#\<close>, or when it is empty after the carriage returns
  and then the surrounding spaces are stripped. So a line that begins with \<^verbatim>\<open>#\<close> and a line
  of spaces and carriage returns produce no rule; a line that begins with \<^verbatim>\<open>\#\<close> produces a
  rule, and that rule matches the literal \<^verbatim>\<open>#\<close>; and a line of one or more spaces followed
  by \<^verbatim>\<open>#\<close> and text is not a comment: it produces a rule, because the comment test comes
  before the spaces are trimmed.
\<close>

theorem C8_lines_without_rule:
  "(parse l = None)
     = (HasPrefix (TrimRight l [CHR 0x0D]) ''#'' \<or> Trim (TrimRight l [CHR 0x0D]) '' '' = [])
   \<and> parse (CHR ''#'' # rest) = None
   \<and> parse (replicate n (CHR '' '') @ replicate k (CHR 0x0D)) = None
   \<and> parse (bslash # CHR ''#'' # rest) \<noteq> None
   \<and> parse (replicate (Suc n) (CHR '' '') @ CHR ''#'' # rest) \<noteq> None
   \<and> git_Match_of model_env \<lparr>Patterns_git = [bslash # ''#file.txt''], FilePath = []\<rparr> False None
        ''#file.txt'' = Inr (Returns (True, None))"
  using parse_comment parse_blank parse_escaped_hash parse_indented_hash escaped_hash_is_literal
  by (simp add: parse_def)

text \<open>
  The claim as stated fails: the line of two spaces, \<^verbatim>\<open>#\<close> and text produces a rule.
\<close>

theorem C8_indented_hash_counterexample:
  "parse_rePat ''  # comment'' = Some (''^(?:|.*/) comment(?:|/.*)$'', False)"
  by code_simp

section \<open>Gitignore matching on concrete patterns\<close>

text \<open>
  The two translations that the test \<^verbatim>\<open>TestGitIgnore\<close> of the package expects.
\<close>

lemma translator_agrees_with_test:
  "parse_rePat ''file-?.*.log''
     = Some (''^(?:|.*/)file-[^/]'' @ [bslash] @ ''.[^/]*'' @ [bslash] @ ''.log(?:|/.*)$'', False)
   \<and> parse_rePat ''!important.txt''
     = Some (''^(?:|.*/)important'' @ [bslash] @ ''.txt(?:|/.*)$'', True)"
  by code_simp

text \<open>
  How \<^verbatim>\<open>parse\<close> anchors: with a slash before the last byte of the line the expression
  begins at the root, without one at any depth.
\<close>

lemma anchor_prefix:
  "HasPrefix (anchor sfx True l) ''^(?:|/)''" and "HasPrefix (anchor sfx False l) ''^(?:|.*/)''"
  by (simp_all add: anchor_def HasPrefix_def Let_def)

text \<open>
  Claim C6. The line \<^verbatim>\<open>/TODO\<close> is translated to an expression anchored at the root, which
  matches \<^verbatim>\<open>TODO\<close> and not \<^verbatim>\<open>src/TODO\<close>; the line \<^verbatim>\<open>TODO\<close> is translated to an expression that
  matches at any depth, both \<^verbatim>\<open>TODO\<close> and \<^verbatim>\<open>src/TODO\<close>. This holds for sequential and for
  parallel construction.
\<close>

theorem C6_anchoring:
  "parse_rePat ''/TODO'' = Some (''^(?:|/)TODO(?:|/.*)$'', False)
   \<and> parse_rePat ''TODO'' = Some (''^(?:|.*/)TODO(?:|/.*)$'', False)
   \<and> git_Match_of model_env \<lparr>Patterns_git = [''/TODO''], FilePath = []\<rparr> False None ''TODO''
        = Inr (Returns (True, None))
   \<and> git_Match_of model_env \<lparr>Patterns_git = [''/TODO''], FilePath = []\<rparr> False None ''src/TODO''
        = Inr (Returns (False, None))
   \<and> git_Match_of model_env \<lparr>Patterns_git = [''TODO''], FilePath = []\<rparr> False None ''TODO''
        = Inr (Returns (True, None))
   \<and> git_Match_of model_env \<lparr>Patterns_git = [''TODO''], FilePath = []\<rparr> False None ''src/TODO''
        = Inr (Returns (True, None))
   \<and> git_Match_of model_env \<lparr>Patterns_git = [''/TODO''], FilePath = []\<rparr> True None ''TODO''
        = Inr (Returns (True, None))
   \<and> git_Match_of model_env \<lparr>Patterns_git = [''/TODO''], FilePath = []\<rparr> True None ''src/TODO''
        = Inr (Returns (False, None))
   \<and> git_Match_of model_env \<lparr>Patterns_git = [''TODO''], FilePath = []\<rparr> True None ''TODO''
        = Inr (Returns (True, None))
   \<and> git_Match_of model_env \<lparr>Patterns_git = [''TODO''], FilePath = []\<rparr> True None ''src/TODO''
        = Inr (Returns (True, None))"
  by code_simp

text \<open>
  Claim C7. The matcher built from the single line \<^verbatim>\<open>a/**/b\<close> matches \<^verbatim>\<open>a/b\<close>, \<^verbatim>\<open>a/x/b\<close> and
  \<^verbatim>\<open>a/x/y/b\<close>, and matches neither \<^verbatim>\<open>b\<close> nor \<^verbatim>\<open>x/a/b\<close>, with sequential and with parallel
  construction.
\<close>

theorem C7_double_star:
  "parse_rePat ''a/**/b'' = Some (''^(?:|/)a(?:/|/.+/)b(?:|/.*)$'', False)
   \<and> map (\<lambda>path. git_Match_of model_env \<lparr>Patterns_git = [''a/**/b''], FilePath = []\<rparr> False None path)
        [''a/b'', ''a/x/b'', ''a/x/y/b'', ''b'', ''x/a/b'']
      = map (\<lambda>b. Inr (Returns (b, None))) [True, True, True, False, False]
   \<and> map (\<lambda>path. git_Match_of model_env \<lparr>Patterns_git = [''a/**/b''], FilePath = []\<rparr> True None path)
        [''a/b'', ''a/x/b'', ''a/x/y/b'', ''b'', ''x/a/b'']
      = map (\<lambda>b. Inr (Returns (b, None))) [True, True, True, False, False]"
  by code_simp

text \<open>
  Claim C1 at a failing input. With the lines \<^verbatim>\<open>src/dir-*\<close> and \<^verbatim>\<open>!src/dir-2\<close> the matcher
  constructed sequentially ignores \<^verbatim>\<open>src/dir-1\<close> and does not ignore \<^verbatim>\<open>src/dir-2\<close> and
  \<^verbatim>\<open>src/dir-2/test.txt\<close>. The matcher constructed in parallel reports all three as ignored:
  when the negative set matches, the result keeps a non-empty source, the text of the
  negative expression.
\<close>

theorem C1_parallel_negation_is_ignored:
  "map (\<lambda>path. git_Match_of model_env
          \<lparr>Patterns_git = [''src/dir-*'', ''!src/dir-2''], FilePath = []\<rparr> False None path)
        [''src/dir-1'', ''src/dir-2'', ''src/dir-2/test.txt'']
      = map (\<lambda>b. Inr (Returns (b, None))) [True, False, False]
   \<and> map (\<lambda>path. git_Match_of model_env
          \<lparr>Patterns_git = [''src/dir-*'', ''!src/dir-2''], FilePath = []\<rparr> True None path)
        [''src/dir-1'', ''src/dir-2'', ''src/dir-2/test.txt'']
      = map (\<lambda>b. Inr (Returns (b, None))) [True, True, True]
   \<and> git_Match2_of model_env
          \<lparr>Patterns_git = [''src/dir-*'', ''!src/dir-2''], FilePath = []\<rparr> True None ''src/dir-2''
      = Inr (Returns (gitignore_result ''^(?:|/)src/dir-2(?:|/.*)$'', None, None))"
  by code_simp

section \<open>The precedence of negative rules\<close>

lemma parse_Some:
  assumes "parse l = Some res"
  shows "rule_src (parsed_rule res) = l" and "l \<noteq> []" and "rePat (parsed_rule res) \<noteq> []"
    and "re (parsed_rule res) = None"
proof -
  from assms have ne: "Trim (TrimRight l [CHR 0x0D]) '' '' \<noteq> []"
    and res: "res = parse_line l (Trim (TrimRight l [CHR 0x0D]) '' '')"
    by (auto simp: parse_def split: if_splits)
  show "rule_src (parsed_rule res) = l" and "re (parsed_rule res) = None"
    by (simp_all add: res parse_line_def)
  show "l \<noteq> []" using ne by (auto simp: Trim_def TrimLeft_def TrimRight_def)
  show "rePat (parsed_rule res) \<noteq> []"
    by (simp add: res parse_line_def anchor_def Let_def)
qed

lemma rules_loop_sequential:
  assumes "rules_loop E False ps (pos, neg) = Inr (pos', neg')"
    and "\<forall>r\<in>set pos \<union> set neg. compiled_rule E r"
  shows "\<forall>r\<in>set pos' \<union> set neg'. compiled_rule E r"
  using assms
proof (induction ps arbitrary: pos neg)
  case Nil
  then show ?case by simp
next
  case (Cons p ps)
  show ?case
  proof (cases "parse p")
    case None
    then show ?thesis using Cons by simp
  next
    case (Some res)
    note ps = parse_Some [OF Some]
    from Cons.prems(1) Some obtain rx where rx: "regexp_Compile E (rePat (parsed_rule res)) = Inr rx"
      by (auto split: sum.splits)
    have new: "compiled_rule E ((parsed_rule res)\<lparr>re := Some rx\<rparr>)"
      using ps rx by (simp add: compiled_rule_def)
    show ?thesis
    proof (cases "negate res")
      case True
      then have "rules_loop E False ps (pos, neg @ [(parsed_rule res)\<lparr>re := Some rx\<rparr>]) = Inr (pos', neg')"
        using Cons.prems(1) Some rx by simp
      then show ?thesis using Cons.IH [of pos "neg @ [(parsed_rule res)\<lparr>re := Some rx\<rparr>]"] Cons.prems(2) new
        by auto
    next
      case False
      then have "rules_loop E False ps (pos @ [(parsed_rule res)\<lparr>re := Some rx\<rparr>], neg) = Inr (pos', neg')"
        using Cons.prems(1) Some rx by simp
      then show ?thesis using Cons.IH [of "pos @ [(parsed_rule res)\<lparr>re := Some rx\<rparr>]" neg] Cons.prems(2) new
        by auto
    qed
  qed
qed

lemma rules_loop_parallel:
  assumes "rules_loop E True ps (pos, neg) = Inr (pos', neg')"
    and "\<forall>r\<in>set pos \<union> set neg. rePat r \<noteq> []"
  shows "\<forall>r\<in>set pos' \<union> set neg'. rePat r \<noteq> []"
  using assms
proof (induction ps arbitrary: pos neg)
  case Nil
  then show ?case by simp
next
  case (Cons p ps)
  show ?case
  proof (cases "parse p")
    case None
    then show ?thesis using Cons by simp
  next
    case (Some res)
    note ps = parse_Some [OF Some]
    show ?thesis
    proof (cases "negate res")
      case True
      then have "rules_loop E True ps (pos, neg @ [parsed_rule res]) = Inr (pos', neg')"
        using Cons.prems(1) Some by simp
      then show ?thesis using Cons.IH [of pos "neg @ [parsed_rule res]"] Cons.prems(2) ps(3)
        by auto
    next
      case False
      then have "rules_loop E True ps (pos @ [parsed_rule res], neg) = Inr (pos', neg')"
        using Cons.prems(1) Some by simp
      then show ?thesis using Cons.IH [of "pos @ [parsed_rule res]" neg] Cons.prems(2) ps(3)
        by auto
    qed
  qed
qed

lemma compiled_rule_matches:
  "compiled_rule E r \<Longrightarrow> re r = Some rx \<Longrightarrow> rx path = pattern_matches E (rePat r) path"
  by (auto simp: compiled_rule_def pattern_matches_def split: option.splits)

lemma pos_loop_live:
  assumes "\<forall>r\<in>set rs. compiled_rule E r"
  shows "\<exists>mp. pos_loop rs None path = Returns (Inr (mp, None))
           \<and> (mp \<noteq> []) = some_rule_matches E rs path"
  using assms
proof (induction rs)
  case Nil
  show ?case by (simp add: some_rule_matches_def)
next
  case (Cons r rs)
  then obtain rx where rx: "re r = Some rx" and src: "rule_src r \<noteq> []"
    by (auto simp: compiled_rule_def split: option.splits)
  have m: "rx path = pattern_matches E (rePat r) path"
    using compiled_rule_matches [of E r rx path] Cons.prems rx by simp
  show ?case
  proof (cases "rx path")
    case True
    then show ?thesis using rx src m by (simp add: some_rule_matches_def)
  next
    case False
    then show ?thesis using rx m Cons by (simp add: some_rule_matches_def)
  qed
qed

lemma neg_loop_live:
  assumes "\<forall>r\<in>set rs. compiled_rule E r"
  shows "neg_loop rs None path mp =
     Returns (gitignore_result (if some_rule_matches E rs path then [] else mp), None, None)"
  using assms
proof (induction rs)
  case Nil
  show ?case by (simp add: some_rule_matches_def)
next
  case (Cons r rs)
  then obtain rx where rx: "re r = Some rx"
    by (auto simp: compiled_rule_def split: option.splits)
  have m: "rx path = pattern_matches E (rePat r) path"
    using compiled_rule_matches [of E r rx path] Cons.prems rx by simp
  show ?case using rx m Cons by (simp add: some_rule_matches_def)
qed

lemma set_Matches:
  assumes "NewRE2Set E (map rePat rs) = Inr s" and "\<forall>r\<in>set rs. rePat r \<noteq> []"
  shows "\<exists>p. Matches s path = (some_rule_matches E rs path, p)
           \<and> (p \<noteq> []) = some_rule_matches E rs path"
proof -
  have len: "length (exprs (set_re2 s)) = length rs"
    using NewRE2Set_length [OF assms(1)] NewRE2Set_Inr(1) [OF assms(1)] by simp
  have nth: "(exprs (set_re2 s) ! k) path = pattern_matches E (rePat (rs ! k)) path" if "k < length rs" for k
    using NewRE2Set_nth [OF assms(1), of k path] that by simp
  have "some_rule_matches E rs path = (\<exists>i<length rs. pattern_matches E (rePat (rs ! i)) path)"
    unfolding some_rule_matches_def list_ex_iff by (metis in_set_conv_nth)
  also have "\<dots> = (\<exists>i<length rs. (exprs (set_re2 s) ! i) path)"
    using nth by blast
  finally have some: "some_rule_matches E rs path = (\<exists>i<length rs. (exprs (set_re2 s) ! i) path)" .
  show ?thesis
  proof (cases "some_rule_matches E rs path")
    case True
    then obtain i where "i < length (exprs (set_re2 s))" "(exprs (set_re2 s) ! i) path"
      using some len by auto
    from Matches_some [OF this] obtain j where j: "j < length (exprs (set_re2 s))"
      "Matches s path = (True, src s ! j)"
      by blast
    have "j < length rs" using j(1) len by simp
    then have "src s ! j \<noteq> []"
      using NewRE2Set_Inr(1) [OF assms(1)] assms(2) by simp
    then show ?thesis using True j(2) by simp
  next
    case False
    then have "\<forall>i<length (exprs (set_re2 s)). \<not> (exprs (set_re2 s) ! i) path" using some len by simp
    from Matches_none [OF this] show ?thesis using False by simp
  qed
qed

lemma newMatcher_git_sequential:
  assumes "newMatcher_git E opts False = Inr gi"
  shows "posSet gi = None" and "negSet gi = None"
    and "\<forall>r\<in>set (posRules gi) \<union> set (negRules gi). compiled_rule E r"
proof -
  from assms obtain patterns pos neg where
    loop: "rules_loop E False patterns ([], []) = Inr (pos, neg)"
    and gi: "gi = \<lparr>src_git = patterns, posRules = pos, negRules = neg, posSet = None, negSet = None\<rparr>"
    by (auto simp: newMatcher_git_def split: if_splits sum.splits prod.splits)
  show "posSet gi = None" and "negSet gi = None" by (simp_all add: gi)
  show "\<forall>r\<in>set (posRules gi) \<union> set (negRules gi). compiled_rule E r"
    using rules_loop_sequential [OF loop] by (simp add: gi)
qed

lemma newMatcher_git_parallel:
  assumes "newMatcher_git E opts True = Inr gi"
  shows "\<exists>pset. posSet gi = Some pset \<and> NewRE2Set E (map rePat (posRules gi)) = Inr pset"
    and "negRules gi \<noteq> [] \<Longrightarrow>
           \<exists>nset. negSet gi = Some nset \<and> NewRE2Set E (map rePat (negRules gi)) = Inr nset"
    and "negRules gi = [] \<Longrightarrow> negSet gi = None"
    and "\<forall>r\<in>set (posRules gi) \<union> set (negRules gi). rePat r \<noteq> []"
proof -
  from assms obtain patterns pos neg pset where
    loop: "rules_loop E True patterns ([], []) = Inr (pos, neg)"
    and pset: "NewRE2Set E (map rePat pos) = Inr pset"
    and gi: "posRules gi = pos" "negRules gi = neg" "posSet gi = Some pset"
      "neg \<noteq> [] \<longrightarrow> (\<exists>nset. negSet gi = Some nset \<and> NewRE2Set E (map rePat neg) = Inr nset)"
      "neg = [] \<longrightarrow> negSet gi = None"
    by (auto simp: newMatcher_git_def split: if_splits sum.splits prod.splits)
  show "\<exists>pset. posSet gi = Some pset \<and> NewRE2Set E (map rePat (posRules gi)) = Inr pset"
    using pset gi by simp
  show "negRules gi \<noteq> [] \<Longrightarrow>
           \<exists>nset. negSet gi = Some nset \<and> NewRE2Set E (map rePat (negRules gi)) = Inr nset"
    using gi by simp
  show "negRules gi = [] \<Longrightarrow> negSet gi = None" using gi by simp
  show "\<forall>r\<in>set (posRules gi) \<union> set (negRules gi). rePat r \<noteq> []"
    using rules_loop_parallel [OF loop] gi by simp
qed

text \<open>
  The precedence of the two rule groups, for every matcher that the constructors return
  and under a live context; \<open>p\<close> is the path with its separators replaced. A path that no
  positive rule matches is not ignored, and one that a positive and no negative rule
  matches is ignored, in both constructions. A path that a positive and a negative rule
  match is not ignored by the matcher constructed sequentially, and is ignored by the one
  constructed in parallel.
\<close>

lemma gitignore_precedence:
  assumes "newMatcher_git E opts par = Inr gi"
    and "p = ReplaceAll path [os_PathSeparator E] ''/''"
  shows "Match_git E gi None path =
     Returns (some_rule_matches E (posRules gi) p
              \<and> (par \<or> \<not> some_rule_matches E (negRules gi) p), None)"
proof (cases par)
  case False
  have seq: "newMatcher_git E opts False = Inr gi" using assms(1) False by simp
  from newMatcher_git_sequential [OF seq]
  have sets: "posSet gi = None" "negSet gi = None"
    and comp: "\<forall>r\<in>set (posRules gi). compiled_rule E r" "\<forall>r\<in>set (negRules gi). compiled_rule E r"
    by auto
  from pos_loop_live [OF comp(1), of p] obtain mp where
    mp: "pos_loop (posRules gi) None p = Returns (Inr (mp, None))"
      "(mp \<noteq> []) = some_rule_matches E (posRules gi) p" by blast
  show ?thesis
    using mp neg_loop_live [OF comp(2), of p mp] False
    by (auto simp: Match_git_def Match2_git_def positive_phase_def negative_phase_def sets
        assms(2) [symmetric])
next
  case True
  have pl: "newMatcher_git E opts True = Inr gi" using assms(1) True by simp
  from newMatcher_git_parallel [OF pl] obtain pset where
    pset: "posSet gi = Some pset" "NewRE2Set E (map rePat (posRules gi)) = Inr pset"
    and neg: "negRules gi \<noteq> [] \<Longrightarrow>
           \<exists>nset. negSet gi = Some nset \<and> NewRE2Set E (map rePat (negRules gi)) = Inr nset"
      "negRules gi = [] \<Longrightarrow> negSet gi = None"
    and ne: "\<forall>r\<in>set (posRules gi). rePat r \<noteq> []" "\<forall>r\<in>set (negRules gi). rePat r \<noteq> []"
    by auto
  from set_Matches [OF pset(2) ne(1), of p] obtain mp where
    mp: "Matches pset p = (some_rule_matches E (posRules gi) p, mp)"
      "(mp \<noteq> []) = some_rule_matches E (posRules gi) p" by blast
  show ?thesis
  proof (cases "negRules gi = []")
    case True
    then show ?thesis using mp neg(2) \<open>par\<close>
      by (auto simp: Match_git_def Match2_git_def positive_phase_def negative_phase_def pset(1)
          assms(2) [symmetric])
  next
    case False
    from neg(1) [OF False] obtain nset where
      nset: "negSet gi = Some nset" "NewRE2Set E (map rePat (negRules gi)) = Inr nset" by blast
    from set_Matches [OF nset(2) ne(2), of p] obtain np where
      np: "Matches nset p = (some_rule_matches E (negRules gi) p, np)"
        "(np \<noteq> []) = some_rule_matches E (negRules gi) p" by blast
    show ?thesis using mp np \<open>par\<close>
      by (auto simp: Match_git_def Match2_git_def positive_phase_def negative_phase_def pset(1)
          nset(1) assms(2) [symmetric])
  qed
qed

section \<open>The translator on the table of the package's test\<close>

text \<open>
  On every row of the table the sequentially constructed matcher, with the modelled
  engine, matches each path that the row lists as matching and no path that it lists as
  not matching. The rows include the patterns \<^verbatim>\<open>/TODO\<close> and \<^verbatim>\<open>a/**/b\<close>.
\<close>

lemma list_all_split: "list_all P (take n xs) \<Longrightarrow> list_all P (drop n xs) \<Longrightarrow> list_all P xs"
  by (metis append_take_drop_id list_all_append)

lemma table_rows_1: "list_all (agrees_with_row model_env) (take 15 individual_patterns)"
  by code_simp

lemma table_rows_2: "list_all (agrees_with_row model_env) (take 15 (drop 15 individual_patterns))"
  by code_simp

lemma table_rows_3: "list_all (agrees_with_row model_env) (take 15 (drop 30 individual_patterns))"
  by code_simp

lemma table_rows_4: "list_all (agrees_with_row model_env) (drop 45 individual_patterns)"
  by code_simp

lemma translator_agrees_with_table: "list_all (agrees_with_row model_env) individual_patterns"
proof -
  have d30: "list_all (agrees_with_row model_env) (drop 30 individual_patterns)"
    using list_all_split [of _ 15 "drop 30 individual_patterns"] table_rows_3 table_rows_4
    by simp
  have d15: "list_all (agrees_with_row model_env) (drop 15 individual_patterns)"
    using list_all_split [of _ 15 "drop 15 individual_patterns"] table_rows_2 d30
    by simp
  show ?thesis
    using list_all_split [of _ 15 individual_patterns] table_rows_1 d15 by simp
qed
section \<open>The combinator\<close>

lemma pos_loop_early:
  "pos_loop rs c path = Returns (Inl (r, err, c')) \<Longrightarrow> r = gitignore_result []"
  by (induction rs c path rule: pos_loop.induct)
     (auto split: prod.splits option.splits if_splits)

lemma neg_loop_result:
  "neg_loop rs c path mp = Returns (r, err, c') \<Longrightarrow> \<exists>s. r = gitignore_result s"
  by (induction rs c path mp rule: neg_loop.induct)
     (auto split: prod.splits option.splits if_splits)

lemma Match2_git_result:
  assumes "Match2_git E gi ctx path = Returns (r, err, c)"
  shows "\<exists>s. r = gitignore_result s"
proof -
  let ?p = "ReplaceAll path [os_PathSeparator E] ''/''"
  show ?thesis
  proof (cases "positive_phase gi ctx ?p")
    case (Returns x)
    show ?thesis
    proof (cases x)
      case (Inl early)
      then have "early = (r, err, c)" using assms Returns by (simp add: Match2_git_def)
      with Inl Returns have pp: "positive_phase gi ctx ?p = Returns (Inl (r, err, c))" by simp
      show ?thesis
      proof (cases "posSet gi")
        case None
        with pp have "pos_loop (posRules gi) ctx ?p = Returns (Inl (r, err, c))"
          by (simp add: positive_phase_def)
        then show ?thesis using pos_loop_early by blast
      next
        case (Some pset)
        with pp show ?thesis
          by (auto simp: positive_phase_def split: prod.splits option.splits)
      qed
    next
      case (Inr cont)
      obtain mp c0 where cont: "cont = (mp, c0)" by (cases cont)
      show ?thesis
      proof (cases "mp = []")
        case True
        then show ?thesis using assms Returns Inr cont by (auto simp: Match2_git_def)
      next
        case False
        then have np: "negative_phase gi c0 ?p mp = Returns (r, err, c)"
          using assms Returns Inr cont by (simp add: Match2_git_def)
        show ?thesis
        proof (cases "negSet gi")
          case None
          with np have "neg_loop (negRules gi) c0 ?p mp = Returns (r, err, c)"
            by (simp add: negative_phase_def)
          then show ?thesis by (rule neg_loop_result)
        next
          case (Some nset)
          with np show ?thesis
            by (auto simp: negative_phase_def split: prod.splits option.splits bool.splits)
        qed
      qed
    qed
  next
    case Panics
    then show ?thesis using assms by (simp add: Match2_git_def)
  next
    case Pending
    then show ?thesis using assms by (simp add: Match2_git_def)
  qed
qed

lemma PathMatcher_Match2_Type:
  assumes "PathMatcher_Match2 E m ctx sched path = Returns (r, err, c)" and "Ok r"
  shows "Type r = PathMatcher_Type m"
proof (cases m)
  case (RegexMatcher rm)
  then have "r = fst (Match2_regex rm ctx path)" using assms(1) by (auto simp: fst_def)
  then show ?thesis using Match2_regex_Type [of rm ctx path] RegexMatcher by simp
next
  case (GlobMatcher gm)
  then have "Match2_glob gm ctx sched path = Returns (r, err, c)" using assms(1) by simp
  from Match2_glob_src [OF this] assms(2) have "r = glob_result path"
    by (auto simp: NoMatch_def)
  then show ?thesis using GlobMatcher by simp
next
  case (GitIgnoreMatcher gi)
  then have "Match2_git E gi ctx path = Returns (r, err, c)" using assms(1) by simp
  from Match2_git_result [OF this] show ?thesis using GitIgnoreMatcher by auto
qed

lemma matchers_loop_first_positive:
  assumes "\<forall>b\<in>set ms1. \<exists>r. PathMatcher_Match2 E b None sched path = Returns (r, None, None) \<and> \<not> Ok r"
    and "PathMatcher_Match2 E m None sched path = Returns (r, None, c)" and "Ok r"
  shows "matchers_loop E (ms1 @ m # ms2) None sched path = Returns (Some r, None)"
  using assms(1)
proof (induction ms1)
  case Nil
  show ?case using assms(2,3) by simp
next
  case (Cons b ms1)
  then obtain r' where "PathMatcher_Match2 E b None sched path = Returns (r', None, None)" "\<not> Ok r'"
    by auto
  then show ?case using Cons by simp
qed

lemma matchers_loop_exhausted:
  assumes "\<forall>b\<in>set ms. \<exists>r. PathMatcher_Match2 E b None sched path = Returns (r, None, None) \<and> \<not> Ok r"
  shows "matchers_loop E ms None sched path = Returns (Some NoMatch, None)"
  using assms
proof (induction ms)
  case Nil
  show ?case by simp
next
  case (Cons b ms)
  then obtain r' where "PathMatcher_Match2 E b None sched path = Returns (r', None, None)" "\<not> Ok r'"
    by auto
  then show ?case using Cons by simp
qed

lemma WithTimeout_live:
  "0 \<le> t \<Longrightarrow> WithTimeout None (if t = 0 then Hour else t) None = None"
  by (simp add: WithTimeout_def Hour_def)

text \<open>
  \<^verbatim>\<open>New\<close> stores one matcher for each configured dialect, the one that the constructor of the
  dialect returned, in the order regex, gitignore, glob.
\<close>

lemma New_configured:
  assumes "New E opts = Inr pi"
  shows "map Inr (matchers pi) = configured_matchers E opts" and "timeout pi = Timeout opts"
proof -
  from assms obtain ms1 ms2 ms3 where
    a: "add_regex E opts [] = Inr ms1" and b: "add_gitignore E opts ms1 = Inr ms2"
    and c: "add_glob E opts ms2 = Inr ms3" and pi: "pi = \<lparr>matchers = ms3, timeout = Timeout opts\<rparr>"
    by (auto simp: New_def split: if_splits sum.splits)
  have 1: "map Inr ms1 =
      (case Regex_opts opts of
         None \<Rightarrow> []
       | Some ro \<Rightarrow>
          [map_sum id RegexMatcher
             (if Parallel opts then regex_NewParallelMatcher E ro else regex_NewMatcher E ro)])"
    using a by (auto simp: add_regex_def split: option.splits sum.splits if_splits)
  have 2: "\<exists>g. ms2 = ms1 @ g \<and> map Inr g =
      (case GitIgnore_opts opts of
         None \<Rightarrow> []
       | Some gio \<Rightarrow>
          [map_sum id GitIgnoreMatcher
             (if Parallel opts then NewParallelMatcher_git E gio else NewMatcher_git E gio)])"
    using b by (auto simp: add_gitignore_def split: option.splits sum.splits if_splits)
  have 3: "\<exists>g. ms3 = ms2 @ g \<and> map Inr g =
      (case Glob_opts opts of
         None \<Rightarrow> []
       | Some go \<Rightarrow>
          [map_sum id GlobMatcher
             (if Parallel opts then NewStrictParallelMatcher E go else NewStrictMatcher E go)])"
    using c by (auto simp: add_glob_def split: option.splits sum.splits if_splits)
  from 2 3 obtain g2 g3 where g: "ms3 = ms1 @ g2 @ g3"
    and g2: "map Inr g2 =
      (case GitIgnore_opts opts of
         None \<Rightarrow> []
       | Some gio \<Rightarrow>
          [map_sum id GitIgnoreMatcher
             (if Parallel opts then NewParallelMatcher_git E gio else NewMatcher_git E gio)])"
    and g3: "map Inr g3 =
      (case Glob_opts opts of
         None \<Rightarrow> []
       | Some go \<Rightarrow>
          [map_sum id GlobMatcher
             (if Parallel opts then NewStrictParallelMatcher E go else NewStrictMatcher E go)])"
    by auto
  show "map Inr (matchers pi) = configured_matchers E opts"
    unfolding configured_matchers_def 1 [symmetric] g2 [symmetric] g3 [symmetric]
    by (simp add: pi g)
  show "timeout pi = Timeout opts" by (simp add: pi)
qed

lemma New_shape:
  assumes "New E opts = Inr pi"
  shows "\<exists>R G L. matchers pi = R @ G @ L
           \<and> (R = [] \<or> (\<exists>m. R = [RegexMatcher m]))
           \<and> (G = [] \<or> (\<exists>m. G = [GitIgnoreMatcher m]))
           \<and> (L = [] \<or> (\<exists>m. L = [GlobMatcher m]))"
proof -
  from assms obtain ms1 ms2 ms3 where
    a: "add_regex E opts [] = Inr ms1" and b: "add_gitignore E opts ms1 = Inr ms2"
    and c: "add_glob E opts ms2 = Inr ms3" and pi: "matchers pi = ms3"
    by (auto simp: New_def split: if_splits sum.splits)
  from a have ms1: "ms1 = [] \<or> (\<exists>m. ms1 = [RegexMatcher m])"
    by (auto simp: add_regex_def split: option.splits sum.splits)
  from b obtain G where G: "ms2 = ms1 @ G" "G = [] \<or> (\<exists>m. G = [GitIgnoreMatcher m])"
    by (auto simp: add_gitignore_def split: option.splits sum.splits)
  from c obtain L where L: "ms3 = ms2 @ L" "L = [] \<or> (\<exists>m. L = [GlobMatcher m])"
    by (auto simp: add_glob_def split: option.splits sum.splits)
  have "matchers pi = ms1 @ G @ L" by (simp add: pi G(1) L(1))
  with ms1 G(2) L(2) show ?thesis by blast
qed

lemma New_regex_first:
  assumes "New E opts = Inr pi" and "RegexMatcher rm \<in> set (matchers pi)"
  shows "\<exists>rest. matchers pi = RegexMatcher rm # rest"
  using New_shape [OF assms(1)] assms(2) by auto

lemma New_gitignore_after_regex:
  assumes "New E opts = Inr pi" and "GitIgnoreMatcher gi \<in> set (matchers pi)"
  shows "\<exists>R L. matchers pi = R @ GitIgnoreMatcher gi # L
           \<and> (\<forall>b\<in>set R. \<exists>rm. b = RegexMatcher rm) \<and> set R \<subseteq> set (matchers pi)"
proof -
  from New_shape [OF assms(1)] obtain R G L where s: "matchers pi = R @ G @ L"
    "R = [] \<or> (\<exists>m. R = [RegexMatcher m])" "G = [] \<or> (\<exists>m. G = [GitIgnoreMatcher m])"
    "L = [] \<or> (\<exists>m. L = [GlobMatcher m])" by blast
  from assms(2) s have "G = [GitIgnoreMatcher gi]" by auto
  with s(1,2) have "matchers pi = R @ GitIgnoreMatcher gi # L
      \<and> (\<forall>b\<in>set R. \<exists>rm. b = RegexMatcher rm) \<and> set R \<subseteq> set (matchers pi)"
    by auto
  then show ?thesis by blast
qed

text \<open>
  Claim C4. Let \<^verbatim>\<open>New\<close> return the combinator \<open>pi\<close> for the options \<open>opts\<close>, with a
  non-negative timeout, and let the context be live. The list of matchers of \<open>pi\<close> is the
  list of the configured dialects in the order regex, gitignore, glob, each with the
  matcher that its constructor returned (this is the order of the configuration in the
  specification; the README and the fields of \<^verbatim>\<open>Options\<close> name glob before gitignore). If every
  matcher before \<open>m\<close> in this list returns no match and \<open>m\<close> returns a positive result, the
  combinator returns exactly that result, whose dialect tag is the dialect of \<open>m\<close>,
  whatever the matchers after \<open>m\<close> would return. If every matcher returns no match, the
  combinator returns \<open>NoMatch\<close> and no error. If both the regex matcher and the glob matcher
  match the path, the result is the one of the regex matcher, with the tag regex. If the
  regex matcher, where one is configured, returns no match and both the gitignore matcher
  and the glob matcher match the path, the result is the one of the gitignore matcher,
  with the tag gitignore.
\<close>

theorem C4_first_positive_in_order:
  assumes "New E opts = Inr pi" and "0 \<le> Timeout opts"
  shows "map Inr (matchers pi) = configured_matchers E opts
    \<and> (matchers pi = ms1 @ m # ms2 \<longrightarrow>
          (\<forall>b\<in>set ms1. \<exists>r. PathMatcher_Match2 E b None sched path = Returns (r, None, None)
                            \<and> \<not> Ok r) \<longrightarrow>
          PathMatcher_Match2 E m None sched path = Returns (r, None, c) \<longrightarrow> Ok r \<longrightarrow>
          PathIgnore_Match2 E pi None None sched path = Returns (Some r, None)
            \<and> Type r = PathMatcher_Type m)
    \<and> ((\<forall>b\<in>set (matchers pi).
            \<exists>r. PathMatcher_Match2 E b None sched path = Returns (r, None, None) \<and> \<not> Ok r) \<longrightarrow>
          PathIgnore_Match2 E pi None None sched path = Returns (Some NoMatch, None))
    \<and> (RegexMatcher rm \<in> set (matchers pi) \<longrightarrow> GlobMatcher gm \<in> set (matchers pi) \<longrightarrow>
          Match2_regex rm None path = (r1, None, c1) \<longrightarrow> Ok r1 \<longrightarrow>
          Match2_glob gm None sched path = Returns (r2, None, c2) \<longrightarrow> Ok r2 \<longrightarrow>
          PathIgnore_Match2 E pi None None sched path = Returns (Some r1, None)
            \<and> Type r1 = Regex)
    \<and> (GitIgnoreMatcher gi \<in> set (matchers pi) \<longrightarrow> GlobMatcher gm \<in> set (matchers pi) \<longrightarrow>
          (\<forall>x. RegexMatcher x \<in> set (matchers pi) \<longrightarrow>
             (\<exists>r. Match2_regex x None path = (r, None, None) \<and> \<not> Ok r)) \<longrightarrow>
          Match2_git E gi None path = Returns (r3, None, c3) \<longrightarrow> Ok r3 \<longrightarrow>
          Match2_glob gm None sched path = Returns (r2, None, c2) \<longrightarrow> Ok r2 \<longrightarrow>
          PathIgnore_Match2 E pi None None sched path = Returns (Some r3, None)
            \<and> Type r3 = GitIgnore)"
proof -
  have t: "0 \<le> timeout pi" using New_configured(2) [OF assms(1)] assms(2) by simp
  have live: "PathIgnore_Match2 E pi None None sched path
      = matchers_loop E (matchers pi) None sched path"
    using t by (simp add: PathIgnore_Match2_def WithTimeout_live)
  show ?thesis
  proof (intro conjI impI)
    show "map Inr (matchers pi) = configured_matchers E opts"
      by (rule New_configured(1) [OF assms(1)])
  next
    assume "matchers pi = ms1 @ m # ms2"
      and "\<forall>b\<in>set ms1. \<exists>r. PathMatcher_Match2 E b None sched path = Returns (r, None, None) \<and> \<not> Ok r"
      and "PathMatcher_Match2 E m None sched path = Returns (r, None, c)" and "Ok r"
    then show "PathIgnore_Match2 E pi None None sched path = Returns (Some r, None)"
      using matchers_loop_first_positive [of ms1 E sched path m r c ms2] by (simp add: live)
  next
    assume "PathMatcher_Match2 E m None sched path = Returns (r, None, c)" and "Ok r"
    then show "Type r = PathMatcher_Type m" by (rule PathMatcher_Match2_Type)
  next
    assume "\<forall>b\<in>set (matchers pi).
              \<exists>r. PathMatcher_Match2 E b None sched path = Returns (r, None, None) \<and> \<not> Ok r"
    then show "PathIgnore_Match2 E pi None None sched path = Returns (Some NoMatch, None)"
      using matchers_loop_exhausted [of "matchers pi" E sched path] by (simp add: live)
  next
    assume rm: "RegexMatcher rm \<in> set (matchers pi)"
      and r1: "Match2_regex rm None path = (r1, None, c1)" "Ok r1"
    from New_regex_first [OF assms(1) rm] obtain rest
      where "matchers pi = [] @ RegexMatcher rm # rest" by auto
    moreover have "PathMatcher_Match2 E (RegexMatcher rm) None sched path = Returns (r1, None, c1)"
      using r1(1) by simp
    ultimately show "PathIgnore_Match2 E pi None None sched path = Returns (Some r1, None)"
      using r1(2) matchers_loop_first_positive [of "[]" E sched path "RegexMatcher rm" r1 c1 rest]
      by (simp add: live)
  next
    assume "Match2_regex rm None path = (r1, None, c1)"
    then show "Type r1 = Regex" using Match2_regex_Type [of rm None path] by simp
  next
    assume gi: "GitIgnoreMatcher gi \<in> set (matchers pi)"
      and rx: "\<forall>x. RegexMatcher x \<in> set (matchers pi) \<longrightarrow>
             (\<exists>r. Match2_regex x None path = (r, None, None) \<and> \<not> Ok r)"
      and r3: "Match2_git E gi None path = Returns (r3, None, c3)" "Ok r3"
    from New_gitignore_after_regex [OF assms(1) gi] obtain R L where
      s: "matchers pi = R @ GitIgnoreMatcher gi # L"
      and R: "\<forall>b\<in>set R. \<exists>rm. b = RegexMatcher rm" "set R \<subseteq> set (matchers pi)"
      by blast
    have "\<forall>b\<in>set R. \<exists>r. PathMatcher_Match2 E b None sched path = Returns (r, None, None) \<and> \<not> Ok r"
    proof
      fix b assume b: "b \<in> set R"
      with R(1) obtain x where x: "b = RegexMatcher x" by blast
      with b R(2) have "RegexMatcher x \<in> set (matchers pi)" by auto
      with rx obtain r where "Match2_regex x None path = (r, None, None)" "\<not> Ok r" by blast
      then show "\<exists>r. PathMatcher_Match2 E b None sched path = Returns (r, None, None) \<and> \<not> Ok r"
        using x by simp
    qed
    moreover have "PathMatcher_Match2 E (GitIgnoreMatcher gi) None sched path = Returns (r3, None, c3)"
      using r3(1) by simp
    ultimately show "PathIgnore_Match2 E pi None None sched path = Returns (Some r3, None)"
      using r3(2) matchers_loop_first_positive [of R E sched path "GitIgnoreMatcher gi" r3 c3 L]
      by (simp add: live s)
  next
    assume "Match2_git E gi None path = Returns (r3, None, c3)"
    from Match2_git_result [OF this] show "Ok r3 \<Longrightarrow> Type r3 = GitIgnore" by auto
  qed
qed

theorem C4_first_positive_in_order_witness:
  "New_Match2_of model_env
      \<lparr>Regex_opts = Some \<lparr>Patterns_regex = [''^x$''], Parallel_regex = False, Literals = False\<rparr>,
       Glob_opts = Some \<lparr>Patterns_glob = [''?''], RawPatterns = []\<rparr>,
       GitIgnore_opts = Some \<lparr>Patterns_git = [''y''], FilePath = []\<rparr>,
       Timeout = 0, Parallel = False\<rparr> None None [] ''x''
     = Inr (Returns (Some (regex_result ''x''), None))
   \<and> New_Match2_of model_env
      \<lparr>Regex_opts = Some \<lparr>Patterns_regex = [''^x$''], Parallel_regex = False, Literals = False\<rparr>,
       Glob_opts = Some \<lparr>Patterns_glob = [''?''], RawPatterns = []\<rparr>,
       GitIgnore_opts = Some \<lparr>Patterns_git = [''y''], FilePath = []\<rparr>,
       Timeout = 0, Parallel = False\<rparr> None None [] ''y''
     = Inr (Returns (Some (gitignore_result ''y''), None))
   \<and> New_Match2_of model_env
      \<lparr>Regex_opts = Some \<lparr>Patterns_regex = [''^x$''], Parallel_regex = False, Literals = False\<rparr>,
       Glob_opts = Some \<lparr>Patterns_glob = [''?''], RawPatterns = []\<rparr>,
       GitIgnore_opts = Some \<lparr>Patterns_git = [''y''], FilePath = []\<rparr>,
       Timeout = 0, Parallel = False\<rparr> None None [] ''z''
     = Inr (Returns (Some (glob_result ''z''), None))
   \<and> New_Match2_of model_env
      \<lparr>Regex_opts = Some \<lparr>Patterns_regex = [''^x$''], Parallel_regex = False, Literals = False\<rparr>,
       Glob_opts = Some \<lparr>Patterns_glob = [''?''], RawPatterns = []\<rparr>,
       GitIgnore_opts = Some \<lparr>Patterns_git = [''y''], FilePath = []\<rparr>,
       Timeout = 0, Parallel = False\<rparr> None None [] ''zz''
     = Inr (Returns (Some NoMatch, None))"
proof -
  let ?RO = "\<lparr>Patterns_regex = [''^x$''], Parallel_regex = False, Literals = False\<rparr>"
  let ?GO = "\<lparr>Patterns_glob = [''?''], RawPatterns = []\<rparr>"
  let ?IO = "\<lparr>Patterns_git = [''y''], FilePath = []\<rparr>"
  let ?O = "\<lparr>Regex_opts = Some ?RO, Glob_opts = Some ?GO, GitIgnore_opts = Some ?IO,
       Timeout = 0, Parallel = False\<rparr>"
  have "case NewMatcher_regex model_env ?RO of
          Inl e \<Rightarrow> False
        | Inr rm \<Rightarrow>
            Match2_regex rm None ''x'' = (regex_result ''x'', None, None)
            \<and> Match2_regex rm None ''y'' = (regex_result [], None, None)
            \<and> Match2_regex rm None ''z'' = (regex_result [], None, None)
            \<and> Match2_regex rm None ''zz'' = (regex_result [], None, None)"
    by code_simp
  then obtain rm where rm: "NewMatcher_regex model_env ?RO = Inr rm"
    and rx: "Match2_regex rm None ''x'' = (regex_result ''x'', None, None)"
    and ry: "Match2_regex rm None ''y'' = (regex_result [], None, None)"
    and rz: "Match2_regex rm None ''z'' = (regex_result [], None, None)"
    and rzz: "Match2_regex rm None ''zz'' = (regex_result [], None, None)"
    by (auto split: sum.splits)
  have "case NewMatcher_git model_env ?IO of
          Inl e \<Rightarrow> False
        | Inr gi \<Rightarrow>
            Match2_git model_env gi None ''y'' = Returns (gitignore_result ''y'', None, None)
            \<and> Match2_git model_env gi None ''z'' = Returns (gitignore_result [], None, None)
            \<and> Match2_git model_env gi None ''zz'' = Returns (gitignore_result [], None, None)"
    by code_simp
  then obtain gi where gi: "NewMatcher_git model_env ?IO = Inr gi"
    and iy: "Match2_git model_env gi None ''y'' = Returns (gitignore_result ''y'', None, None)"
    and iz: "Match2_git model_env gi None ''z'' = Returns (gitignore_result [], None, None)"
    and izz: "Match2_git model_env gi None ''zz'' = Returns (gitignore_result [], None, None)"
    by (auto split: sum.splits)
  have "case NewStrictMatcher model_env ?GO of
          Inl e \<Rightarrow> False
        | Inr gm \<Rightarrow>
            Match2_glob gm None [] ''x'' = Returns (glob_result ''x'', None, None)
            \<and> Match2_glob gm None [] ''y'' = Returns (glob_result ''y'', None, None)
            \<and> Match2_glob gm None [] ''z'' = Returns (glob_result ''z'', None, None)
            \<and> Match2_glob gm None [] ''zz'' = Returns (glob_result [], None, None)"
    by code_simp
  then obtain gm where gm: "NewStrictMatcher model_env ?GO = Inr gm"
    and gx: "Match2_glob gm None [] ''x'' = Returns (glob_result ''x'', None, None)"
    and gy: "Match2_glob gm None [] ''y'' = Returns (glob_result ''y'', None, None)"
    and gz: "Match2_glob gm None [] ''z'' = Returns (glob_result ''z'', None, None)"
    and gzz: "Match2_glob gm None [] ''zz'' = Returns (glob_result [], None, None)"
    by (auto split: sum.splits)
  define pi where
    "pi = \<lparr>matchers = [RegexMatcher rm, GitIgnoreMatcher gi, GlobMatcher gm], timeout = 0\<rparr>"
  have new: "New model_env ?O = Inr pi"
    by (simp add: New_def add_regex_def add_gitignore_def add_glob_def regex_NewMatcher_def
        rm gi gm pi_def)
  have t: "0 \<le> Timeout ?O" by simp
  have ms: "matchers pi = [RegexMatcher rm, GitIgnoreMatcher gi, GlobMatcher gm]"
    by (simp add: pi_def)
  have a: "PathIgnore_Match2 model_env pi None None [] ''x'' = Returns (Some (regex_result ''x''), None)"
    using C4_first_positive_in_order [OF new t, where rm = rm and gm = gm and sched = "[]"
        and path = "''x''" and ?r1.0 = "regex_result ''x''" and ?c1.0 = None
        and ?r2.0 = "glob_result ''x''" and ?c2.0 = None]
      ms rx gx by simp
  have b: "PathIgnore_Match2 model_env pi None None [] ''y''
      = Returns (Some (gitignore_result ''y''), None)"
    using C4_first_positive_in_order [OF new t, where gi = gi and gm = gm and sched = "[]"
        and path = "''y''" and ?r3.0 = "gitignore_result ''y''" and ?c3.0 = None
        and ?r2.0 = "glob_result ''y''" and ?c2.0 = None]
      ms ry iy gy by simp
  have c: "PathIgnore_Match2 model_env pi None None [] ''z'' = Returns (Some (glob_result ''z''), None)"
    using C4_first_positive_in_order [OF new t, where ?ms1.0 = "[RegexMatcher rm, GitIgnoreMatcher gi]"
        and m = "GlobMatcher gm" and ?ms2.0 = "[]" and sched = "[]"
        and path = "''z''" and r = "glob_result ''z''" and c = None]
      ms rz iz gz by simp
  have d: "PathIgnore_Match2 model_env pi None None [] ''zz'' = Returns (Some NoMatch, None)"
    using C4_first_positive_in_order [OF new t, where sched = "[]" and path = "''zz''"]
      ms rzz izz gzz by simp
  show ?thesis using a b c d by (simp add: New_Match2_of_def new)
qed

subsection \<open>Cancellation before the call\<close>

text \<open>
  Two further inputs at which a context that is done before the call does not give a
  returned error: a gitignore matcher constructed sequentially without a positive rule
  never looks at the context, and \<^verbatim>\<open>PathIgnore.Match\<close> panics on the nil result that
  \<^verbatim>\<open>PathIgnore.Match2\<close> returns together with the error.
\<close>

lemma cancelled_gitignore_without_positive_rule:
  "git_Match_of model_env \<lparr>Patterns_git = [''!keep''], FilePath = []\<rparr> False (Some 0) ''keep''
     = Inr (Returns (False, None))"
  by code_simp

lemma cancelled_combinator_Match_panics:
  "New_Match2_of model_env
      \<lparr>Regex_opts = Some \<lparr>Patterns_regex = [''x''], Parallel_regex = False, Literals = False\<rparr>,
       Glob_opts = None, GitIgnore_opts = None, Timeout = 0, Parallel = False\<rparr>
      (Some 0) None [] ''x'' = Inr (Returns (None, Some Canceled))
   \<and> New_Match_of model_env
      \<lparr>Regex_opts = Some \<lparr>Patterns_regex = [''x''], Parallel_regex = False, Literals = False\<rparr>,
       Glob_opts = None, GitIgnore_opts = None, Timeout = 0, Parallel = False\<rparr>
      (Some 0) None [] ''x'' = Inr Panics"
  by code_simp

text \<open>
  Where the context is looked at on entry, a context that is done gives the error: the
  regex matcher and the glob matcher in both modes.
\<close>

lemma cancelled_before_regex:
  "Match2_regex m (Some 0) path = (regex_result [], Some Canceled, Some 0)"
  by (simp add: Match2_regex_def)

lemma cancelled_before_glob:
  "Match2_glob g (Some 0) sched path = Returns (NoMatch, Some Canceled, Some 0)"
  by (simp add: Match2_glob_def)

end
